theory Spec2Isabelle
  imports Main
begin

section \<open>Types of the analysed program (go/types)\<close>

text \<open>
  The kinds of \<^verbatim>\<open>types.Basic\<close>. \<^verbatim>\<open>types.Byte\<close> is an alias of
  \<^verbatim>\<open>types.Uint8\<close> and \<^verbatim>\<open>types.Rune\<close> of \<^verbatim>\<open>types.Int32\<close>.
  (\<^verbatim>\<open>types.Int\<close> is written \<open>IntKind\<close>: \<open>Int\<close> is set intersection in HOL.)
\<close>

datatype basicKind = Invalid | Bool | IntKind | Int8 | Int16 | Int32 | Int64
  | Uint | Uint8 | Uint16 | Uint32 | Uint64 | Uintptr | Float32 | Float64
  | Complex64 | Complex128 | String | UnsafePointer
  | UntypedBool | UntypedInt | UntypedRune | UntypedFloat | UntypedComplex
  | UntypedString | UntypedNil

abbreviation Byte :: basicKind where
  "Byte \<equiv> Uint8"

text \<open>
  The dynamic types behind the interface \<^verbatim>\<open>types.Type\<close>. A named type is its
  name; what \<^verbatim>\<open>Underlying()\<close> returns for it is given by the declarations of the
  analysed program, a function from names to types, so that recursive declarations
  (a struct with a pointer to itself) are finite terms. A struct is its fields in
  declaration order, each with \<^verbatim>\<open>Name()\<close> and \<^verbatim>\<open>Type()\<close>.
\<close>

datatype gotype =
    Pointer gotype
  | Basic basicKind
  | Struct "(string \<times> gotype) list"
  | Slice gotype
  | Array nat gotype
  | Map gotype gotype
  | Named string
  | Chan gotype
  | Tuple "gotype list"
  | Signature "gotype list" "gotype list"
  | Interface "string list"

type_synonym decls = "string \<Rightarrow> gotype"

fun Underlying :: "decls \<Rightarrow> gotype \<Rightarrow> gotype" where
  "Underlying D (Named n) = D n"
| "Underlying D t = t"

section \<open>Errors\<close>

text \<open>
  One constructor for each error the code builds with \<^verbatim>\<open>fmt.Errorf\<close>, holding the
  values its format string prints, one for the registry's refusal, and one for the nil
  dereference of \<^verbatim>\<open>this.sortedKeys\<close> when no plugin was set.
\<close>

datatype error =
    NotTwoArguments string
  | DifferentTypes string gotype gotype
  | UnsupportedCompareType gotype
  | UnsupportedFieldType gotype
  | ConflictingFuncName string gotype
  | NilSortedKeys

section \<open>The printer\<close>

text \<open>
  Modelled from the spec: the Printer is not among the sources; the spec gives it as
  "accumulates emitted lines with indentation control" with \<^verbatim>\<open>emitLine\<close>,
  \<^verbatim>\<open>indent\<close>, \<^verbatim>\<open>unindent\<close> and \<^verbatim>\<open>newImport\<close>. A line is kept with the nesting depth
  it was emitted at.
\<close>

record printer =
  indent :: nat
  lines :: "(nat \<times> string) list"

datatype pcmd = P string | In | Out

fun pstep :: "pcmd \<Rightarrow> printer \<Rightarrow> printer" where
  "pstep (P s) p = p\<lparr>lines := lines p @ [(indent p, s)]\<rparr>"
| "pstep In p = p\<lparr>indent := Suc (indent p)\<rparr>"
| "pstep Out p = p\<lparr>indent := indent p - 1\<rparr>"

fun pemit :: "pcmd list \<Rightarrow> printer \<Rightarrow> printer" where
  "pemit [] p = p"
| "pemit (c # cs) p = pemit cs (pstep c p)"

definition newPrinter :: printer where
  "newPrinter = \<lparr>indent = 0, lines = []\<rparr>"

text \<open>
  Modelled from the spec: \<^verbatim>\<open>newImport(packagePath)\<close> "supplies a renderable alias";
  the alias is taken to be the package path itself.
\<close>

definition NewImport :: "string \<Rightarrow> string" where
  "NewImport path = path"

section \<open>The type registry (TypesMap)\<close>

text \<open>
  Modelled from the spec: the registry (\<^verbatim>\<open>TypesMap\<close>, \<^verbatim>\<open>newTypesMap\<close>,
  \<^verbatim>\<open>SetFuncName\<close>, \<^verbatim>\<open>GetFuncName\<close>, \<^verbatim>\<open>Generating\<close>, \<^verbatim>\<open>ToGenerate\<close>) is not among the
  sources. The spec: a registry entry is (Type, Function Name, state) with state one of
  Requested, Generating, Done; a type maps to at most one function name; requesting the
  same type again returns the existing name; a fresh name is derived from the configured
  prefix and the type's canonical name; the registry exposes the ordered list of types
  still pending generation.
\<close>

datatype genState = StRequested | StGenerating | StDone

record typesMap =
  prefix :: string
  canonicalName :: "gotype \<Rightarrow> string"
  entries :: "(gotype \<times> string \<times> genState) list"

definition newTypesMap :: "(gotype \<Rightarrow> string) \<Rightarrow> string \<Rightarrow> typesMap" where
  "newTypesMap q pre = \<lparr>prefix = pre, canonicalName = q, entries = []\<rparr>"

fun nameOf :: "(gotype \<times> string \<times> genState) list \<Rightarrow> gotype \<Rightarrow> string option" where
  "nameOf [] t = None"
| "nameOf ((t', n, s) # es) t = (if t' = t then Some n else nameOf es t)"

fun typeOfName :: "(gotype \<times> string \<times> genState) list \<Rightarrow> string \<Rightarrow> gotype option" where
  "typeOfName [] n = None"
| "typeOfName ((t, n', s) # es) n = (if n' = n then Some t else typeOfName es n)"

definition newName :: "typesMap \<Rightarrow> gotype \<Rightarrow> string" where
  "newName tm t = prefix tm @ ''_'' @ canonicalName tm t"

text \<open>Modelled from the spec: \<^verbatim>\<open>requestName\<close>, in the code \<^verbatim>\<open>GetFuncName\<close>.\<close>

definition GetFuncName :: "gotype \<Rightarrow> typesMap \<Rightarrow> string \<times> typesMap" where
  "GetFuncName t tm =
     (case nameOf (entries tm) t of
        Some n \<Rightarrow> (n, tm)
      | None \<Rightarrow> (newName tm t, tm\<lparr>entries := entries tm @ [(t, newName tm t, StRequested)]\<rparr>))"

text \<open>
  Modelled from the spec: the registration of a call site's requested name for its type.
  A second request of the same type under the same name changes nothing; a type that has
  another name, or a name that stands for another type, is refused.
\<close>

definition SetFuncName :: "gotype \<Rightarrow> string \<Rightarrow> typesMap \<Rightarrow> error + typesMap" where
  "SetFuncName t name tm =
     (case nameOf (entries tm) t of
        Some n \<Rightarrow> (if n = name then Inr tm else Inl (ConflictingFuncName name t))
      | None \<Rightarrow>
         (case typeOfName (entries tm) name of
            Some t' \<Rightarrow> Inl (ConflictingFuncName name t)
          | None \<Rightarrow> Inr (tm\<lparr>entries := entries tm @ [(t, name, StRequested)]\<rparr>)))"

fun markGenerating :: "gotype \<Rightarrow> (gotype \<times> string \<times> genState) list
    \<Rightarrow> (gotype \<times> string \<times> genState) list" where
  "markGenerating t [] = []"
| "markGenerating t ((t', n, s) # es) =
     (if t' = t then (t', n, (if s = StRequested then StGenerating else s)) # es
      else (t', n, s) # markGenerating t es)"

definition Generating :: "gotype \<Rightarrow> typesMap \<Rightarrow> typesMap" where
  "Generating t tm = tm\<lparr>entries := markGenerating t (entries tm)\<rparr>"

fun pending :: "(gotype \<times> string \<times> genState) list \<Rightarrow> gotype list" where
  "pending [] = []"
| "pending ((t, n, s) # es) = (if s = StRequested then t # pending es else pending es)"

definition ToGenerate :: "typesMap \<Rightarrow> gotype list" where
  "ToGenerate tm = pending (entries tm)"

section \<open>The compare plugin: construction\<close>

text \<open>
  \<^verbatim>\<open>type compare struct\<close>. \<open>qual\<close> stands for \<^verbatim>\<open>types.TypeString(_, this.qual)\<close>;
  \<open>sortedKeys\<close> is \<open>None\<close> until \<^verbatim>\<open>SetSortedKeys\<close> is called (a nil interface in Go)
  and otherwise the registry of the sorted-keys plugin.
\<close>

record compare =
  TypesMap :: typesMap
  qual :: "gotype \<Rightarrow> string"
  printer :: printer
  bytesPkg :: string
  stringsPkg :: string
  sortedKeys :: "typesMap option"

text \<open>
  A call expression as the constructor sees it: \<^verbatim>\<open>call.Fun\<close> is an identifier or
  some other expression, and each argument is given by \<^verbatim>\<open>pkgInfo.TypeOf\<close> of it.
\<close>

datatype funExpr = Ident string | OtherExpr

record callExpr =
  Fun :: funExpr
  Args :: "gotype list"

definition HasPrefix :: "string \<Rightarrow> string \<Rightarrow> bool" where
  "HasPrefix s pre = (take (length pre) s = pre)"

text \<open>The loop of \<^verbatim>\<open>newCompare\<close> over the calls, on the registry it fills.\<close>

fun registerCalls :: "string \<Rightarrow> callExpr list \<Rightarrow> typesMap \<Rightarrow> error + typesMap" where
  "registerCalls pre [] tm = Inr tm"
| "registerCalls pre (call # calls) tm =
     (case Fun call of
        OtherExpr \<Rightarrow> registerCalls pre calls tm
      | Ident name \<Rightarrow>
          if \<not> HasPrefix name pre then registerCalls pre calls tm
          else if length (Args call) \<noteq> 2 then Inl (NotTwoArguments name)
          else
            let t0 = Args call ! 0; t1 = Args call ! 1 in
            if t0 \<noteq> t1 then Inl (DifferentTypes name t0 t1)
            else
              (case SetFuncName t0 name tm of
                 Inl err \<Rightarrow> Inl err
               | Inr tm' \<Rightarrow> registerCalls pre calls tm'))"

definition newCompare :: "printer \<Rightarrow> (gotype \<Rightarrow> string) \<Rightarrow> string \<Rightarrow> callExpr list
    \<Rightarrow> error + compare" where
  "newCompare p q pre calls =
     (case registerCalls pre calls (newTypesMap q pre) of
        Inl err \<Rightarrow> Inl err
      | Inr tm \<Rightarrow>
          Inr \<lparr>TypesMap = tm, qual = q, printer = p,
               bytesPkg = NewImport ''bytes'', stringsPkg = NewImport ''strings'',
               sortedKeys = None\<rparr>)"

definition SetSortedKeys :: "typesMap \<Rightarrow> compare \<Rightarrow> compare" where
  "SetSortedKeys sk c = c\<lparr>sortedKeys := Some sk\<rparr>"

section \<open>The compare plugin: generation of the text\<close>

text \<open>The printer of the plugin, and the promoted method \<^verbatim>\<open>this.GetFuncName\<close>.\<close>

definition emit :: "pcmd list \<Rightarrow> compare \<Rightarrow> compare" where
  "emit cs c = c\<lparr>printer := pemit cs (printer c)\<rparr>"

definition getName :: "gotype \<Rightarrow> compare \<Rightarrow> string \<times> compare" where
  "getName t c = (case GetFuncName t (TypesMap c) of (n, tm) \<Rightarrow> (n, c\<lparr>TypesMap := tm\<rparr>))"

text \<open>\<^verbatim>\<open>fmt.Sprintf("%s(%s, %s)", f, thisField, thatField)\<close>\<close>

definition callStr :: "string \<Rightarrow> string \<Rightarrow> string \<Rightarrow> string" where
  "callStr f thisField thatField = f @ ''('' @ thisField @ '', '' @ thatField @ '')''"

text \<open>
  \<^verbatim>\<open>func (this *compare) field(thisField, thatField string, fieldType types.Type)\<close>:
  the type switch is on the field's type itself, not on its underlying type.
\<close>

definition field :: "string \<Rightarrow> string \<Rightarrow> gotype \<Rightarrow> compare \<Rightarrow> (error + string) \<times> compare" where
  "field thisField thatField fieldType c =
     (case fieldType of
        Basic k \<Rightarrow>
          if k = String
          then (Inr (callStr (stringsPkg c @ ''.Compare'') thisField thatField), c)
          else (case getName fieldType c of
                  (f, c') \<Rightarrow> (Inr (callStr f thisField thatField), c'))
      | Pointer ref \<Rightarrow>
          (case ref of
             Named n \<Rightarrow> (Inr (thisField @ ''.Compare('' @ thatField @ '')''), c)
           | _ \<Rightarrow> (case getName fieldType c of
                     (f, c') \<Rightarrow> (Inr (callStr f thisField thatField), c')))
      | Array n el \<Rightarrow>
          (case getName fieldType c of
             (f, c') \<Rightarrow> (Inr (callStr f thisField thatField), c'))
      | Map k el \<Rightarrow>
          (case getName fieldType c of
             (f, c') \<Rightarrow> (Inr (callStr f thisField thatField), c'))
      | Slice el \<Rightarrow>
          if el = Basic Byte
          then (Inr (callStr (bytesPkg c @ ''.Compare'') thisField thatField), c)
          else (case getName fieldType c of
                  (f, c') \<Rightarrow> (Inr (callStr f thisField thatField), c'))
      | Named n \<Rightarrow> (Inr (thisField @ ''.Compare(&'' @ thatField @ '')''), c)
      | _ \<Rightarrow> (Inl (UnsupportedFieldType fieldType), c))"

text \<open>The lines 95 to 109, again 166 to 180 and 231 to 245.\<close>

definition nilLines :: "pcmd list" where
  "nilLines =
     [P ''if this == nil {'', In,
      P ''if that == nil {'', In,
      P ''return 0'', Out,
      P ''}'',
      P ''return -1'', Out,
      P ''}'',
      P ''if that == nil {'', In,
      P ''return 1'', Out,
      P ''}'']"

text \<open>The lines 181 to 190, again 206 to 215 and 246 to 255.\<close>

definition lenLines :: "pcmd list" where
  "lenLines =
     [P ''if len(this) != len(that) {'', In,
      P ''if len(this) < len(that) {'', In,
      P ''return -1'', Out,
      P ''}'',
      P ''return 1'', Out,
      P ''}'']"

text \<open>\<^verbatim>\<open>if c := %s; c != 0 {\<close>, \<^verbatim>\<open>return c\<close>, \<^verbatim>\<open>}\<close>\<close>

definition ifcLines :: "string \<Rightarrow> pcmd list" where
  "ifcLines s = [P (''if c := '' @ s @ ''; c != 0 {''), In, P ''return c'', Out, P ''}'']"

text \<open>The loop over the fields of a struct, lines 148 to 163.\<close>

fun genFields :: "(string \<times> gotype) list \<Rightarrow> compare \<Rightarrow> error option \<times> compare" where
  "genFields [] c = (None, c)"
| "genFields ((fieldName, fieldType) # fs) c =
     (case field (''this.'' @ fieldName) (''that.'' @ fieldName) fieldType c of
        (Inl err, c') \<Rightarrow> (Some err, c')
      | (Inr fieldStr, c') \<Rightarrow> genFields fs (emit (ifcLines fieldStr) c'))"

text \<open>Lines 292 to 294: the end of every branch that does not return early.\<close>

definition closeFunc :: "compare \<Rightarrow> error option \<times> compare" where
  "closeFunc c = (None, emit [Out, P ''}''] c)"

text \<open>The element loop of slices and arrays, lines 191 to 204 and 216 to 229.\<close>

definition genElems :: "gotype \<Rightarrow> compare \<Rightarrow> error option \<times> compare" where
  "genElems el c =
     (let c1 = emit [P ''for i := 0; i < len(this); i++ {'', In] c in
      case field ''this[i]'' ''that[i]'' el c1 of
        (Inl err, c2) \<Rightarrow> (Some err, c2)
      | (Inr cmpStr, c2) \<Rightarrow>
          closeFunc (emit (ifcLines cmpStr @ [Out, P ''}'', P ''return 0'']) c2))"

text \<open>The walk over the sorted keys of a map, lines 256 to 288.\<close>

definition genKeys :: "gotype \<Rightarrow> gotype \<Rightarrow> gotype \<Rightarrow> compare \<Rightarrow> error option \<times> compare" where
  "genKeys typ key el c =
     (case sortedKeys c of
        None \<Rightarrow> (Some NilSortedKeys, c)
      | Some sk \<Rightarrow>
         (let k1 = fst (GetFuncName typ sk);
              sk1 = snd (GetFuncName typ sk);
              k2 = fst (GetFuncName typ sk1);
              sk2 = snd (GetFuncName typ sk1);
              c1 = emit [P (''thiskeys := '' @ k1 @ ''(this)''),
                         P (''thatkeys := '' @ k2 @ ''(that)''),
                         P ''for i, thiskey := range thiskeys {'', In,
                         P ''thatkey := thatkeys[i]'',
                         P ''if thiskey == thatkey {'', In] (c\<lparr>sortedKeys := Some sk2\<rparr>)
          in (case field ''this[thiskey]'' ''that[thatkey]'' el c1 of
                (Inl err, c2) \<Rightarrow> (Some err, c2)
              | (Inr cmpStr, c2) \<Rightarrow>
                 (let c3 = emit (ifcLines cmpStr @ [Out, P ''} else {'', In]) c2 in
                  (case field ''thiskey'' ''thatkey'' key c3 of
                     (Inl err, c4) \<Rightarrow> (Some err, c4)
                   | (Inr cmpStr2, c4) \<Rightarrow>
                       closeFunc (emit (ifcLines cmpStr2 @
                         [Out, P ''}'', Out, P ''}'', P ''return 0'']) c4))))))"

text \<open>The branch of \<^verbatim>\<open>*types.Basic\<close>, lines 113 to 145.\<close>

definition basicLines :: "string \<Rightarrow> basicKind \<Rightarrow> pcmd list" where
  "basicLines strings k =
     (if k = String then [P (''return '' @ strings @ ''.Compare(this, that)'')]
      else if k = Complex128 \<or> k = Complex64 then [P ''return 0 //TODO'']
      else if k = Bool then
        [P ''if this == that {'', In,
         P ''return 0'', Out,
         P ''}'',
         P ''if that {'', In,
         P ''return -1'', Out,
         P ''}'',
         P ''return 1'']
      else
        [P ''if this != that {'', In,
         P ''if this < that {'', In,
         P ''return -1'', Out,
         P ''} else {'', In,
         P ''return 1'', Out,
         P ''}'', Out,
         P ''}'',
         P ''return 0''])"

text \<open>\<^verbatim>\<open>func (this *compare) genFuncFor(typ types.Type) error\<close>\<close>

definition genFuncFor :: "decls \<Rightarrow> gotype \<Rightarrow> compare \<Rightarrow> error option \<times> compare" where
  "genFuncFor D typ c0 =
     (let c1 = c0\<lparr>TypesMap := Generating typ (TypesMap c0)\<rparr>;
          typeStr = qual c1 typ;
          c2 = emit [P []] c1;
          name = fst (getName typ c2);
          c3 = snd (getName typ c2);
          c4 = emit [P (''func '' @ name @ ''(this, that '' @ typeStr @ '') int {''), In] c3
      in (case Underlying D typ of
            Pointer ref \<Rightarrow>
              (let c5 = emit nilLines c4;
                   f = fst (getName ref c5);
                   c6 = snd (getName ref c5)
               in closeFunc (emit [P (''return '' @ f @ ''(*this, *that)'')] c6))
          | Basic k \<Rightarrow> closeFunc (emit (basicLines (stringsPkg c4) k) c4)
          | Struct flds \<Rightarrow>
              (case genFields flds c4 of
                 (Some err, c5) \<Rightarrow> (Some err, c5)
               | (None, c5) \<Rightarrow> closeFunc (emit [P ''return 0''] c5))
          | Slice el \<Rightarrow> genElems el (emit (nilLines @ lenLines) c4)
          | Array n el \<Rightarrow> genElems el (emit lenLines c4)
          | Map key el \<Rightarrow> genKeys typ key el (emit (nilLines @ lenLines) c4)
          | _ \<Rightarrow> (Some (UnsupportedCompareType typ), c4)))"

text \<open>\<^verbatim>\<open>func (this *compare) Generate() error\<close>: one pass over \<^verbatim>\<open>ToGenerate()\<close>.\<close>

fun genAll :: "decls \<Rightarrow> gotype list \<Rightarrow> compare \<Rightarrow> error option \<times> compare" where
  "genAll D [] c = (None, c)"
| "genAll D (typ # typs) c =
     (case genFuncFor D typ c of
        (Some err, c') \<Rightarrow> (Some err, c')
      | (None, c') \<Rightarrow> genAll D typs c')"

definition Generate :: "decls \<Rightarrow> compare \<Rightarrow> error option \<times> compare" where
  "Generate D c = genAll D (ToGenerate (TypesMap c)) c"

section \<open>Reading an error and a call site\<close>

text \<open>The callee name an error message starts with (its first \<^verbatim>\<open>%s\<close>), if any.\<close>

fun citedName :: "error \<Rightarrow> string option" where
  "citedName (NotTwoArguments name) = Some name"
| "citedName (DifferentTypes name t0 t1) = Some name"
| "citedName (ConflictingFuncName name t) = Some name"
| "citedName _ = None"

text \<open>
  A call site that carries the prefix and fails one of the two checks of
  \<^verbatim>\<open>newCompare\<close>: its arity, or the identity of its two argument types.
\<close>

definition invalidSite :: "string \<Rightarrow> callExpr \<Rightarrow> bool" where
  "invalidSite pre call =
     (case Fun call of
        OtherExpr \<Rightarrow> False
      | Ident name \<Rightarrow>
          HasPrefix name pre \<and> (length (Args call) \<noteq> 2 \<or> Args call ! 0 \<noteq> Args call ! 1))"

section \<open>A type name renderer for the concrete scenarios\<close>

text \<open>
  The renderer of type names is external (\<^verbatim>\<open>types.TypeString\<close>); every theorem below
  holds for any renderer. The concrete scenarios use this one.
\<close>

fun basicName :: "basicKind \<Rightarrow> string" where
  "basicName Bool = ''bool''"
| "basicName IntKind = ''int''"
| "basicName Int64 = ''int64''"
| "basicName Uint8 = ''uint8''"
| "basicName Float64 = ''float64''"
| "basicName Complex128 = ''complex128''"
| "basicName String = ''string''"
| "basicName k = ''basic''"

fun typeString :: "gotype \<Rightarrow> string" where
  "typeString (Named n) = n"
| "typeString (Pointer t) = ''*'' @ typeString t"
| "typeString (Slice t) = ''[]'' @ typeString t"
| "typeString (Array n t) = ''[N]'' @ typeString t"
| "typeString (Map k v) = ''map['' @ typeString k @ '']'' @ typeString v"
| "typeString (Basic k) = basicName k"
| "typeString (Chan t) = ''chan '' @ typeString t"
| "typeString (Struct fs) = ''struct{...}''"
| "typeString (Tuple ts) = ''(...)''"
| "typeString (Signature ps rs) = ''func(...)''"
| "typeString (Interface ms) = ''interface{...}''"

section \<open>The generated text, read as a program\<close>

text \<open>
  The expressions and statements that occur in the text the plugin emits, with the
  function that prints them back as lines. The theorems on the generated comparators
  first show that the emitted lines are exactly the print of such a program, and then
  what that program computes.
\<close>

datatype expr =
    Var string
  | NilLit
  | IntLit int
  | Deref expr
  | AddrOf expr
  | Sel expr string
  | Index expr expr
  | Len expr
  | Call string "expr list"
  | MethodCall expr string "expr list"
  | Eq expr expr
  | Neq expr expr
  | Lt expr expr

datatype stmt =
    Return expr
  | ReturnTodo
  | Define string expr
  | IfElse expr "stmt list" "stmt list"
  | IfInit string expr expr "stmt list"
  | ForLen string expr "stmt list"
  | ForRange string string expr "stmt list"

fun showNat :: "nat \<Rightarrow> string" where
  "showNat n =
     (if n < 10 then [''0123456789'' ! n]
      else showNat (n div 10) @ [''0123456789'' ! (n mod 10)])"

declare showNat.simps [simp del]

definition showInt :: "int \<Rightarrow> string" where
  "showInt i = (if i < 0 then ''-'' @ showNat (nat (- i)) else showNat (nat i))"

fun commaSep :: "string list \<Rightarrow> string" where
  "commaSep [] = []"
| "commaSep [s] = s"
| "commaSep (s # t # ss) = s @ '', '' @ commaSep (t # ss)"

fun showExpr :: "expr \<Rightarrow> string" where
  "showExpr (Var x) = x"
| "showExpr NilLit = ''nil''"
| "showExpr (IntLit i) = showInt i"
| "showExpr (Deref e) = ''*'' @ showExpr e"
| "showExpr (AddrOf e) = ''&'' @ showExpr e"
| "showExpr (Sel e f) = showExpr e @ ''.'' @ f"
| "showExpr (Index e i) = showExpr e @ ''['' @ showExpr i @ '']''"
| "showExpr (Len e) = ''len('' @ showExpr e @ '')''"
| "showExpr (Call f es) = f @ ''('' @ commaSep (map showExpr es) @ '')''"
| "showExpr (MethodCall e m es) = showExpr e @ ''.'' @ m @ ''('' @ commaSep (map showExpr es) @ '')''"
| "showExpr (Eq a b) = showExpr a @ '' == '' @ showExpr b"
| "showExpr (Neq a b) = showExpr a @ '' != '' @ showExpr b"
| "showExpr (Lt a b) = showExpr a @ '' < '' @ showExpr b"

fun showStmt :: "nat \<Rightarrow> stmt \<Rightarrow> (nat \<times> string) list"
  and showBlock :: "nat \<Rightarrow> stmt list \<Rightarrow> (nat \<times> string) list" where
  "showStmt d (Return e) = [(d, ''return '' @ showExpr e)]"
| "showStmt d ReturnTodo = [(d, ''return 0 //TODO'')]"
| "showStmt d (Define x e) = [(d, x @ '' := '' @ showExpr e)]"
| "showStmt d (IfElse c t e) =
     (d, ''if '' @ showExpr c @ '' {'') # showBlock (Suc d) t @
     (if e = [] then [] else (d, ''} else {'') # showBlock (Suc d) e) @ [(d, ''}'')]"
| "showStmt d (IfInit x e c b) =
     (d, ''if '' @ x @ '' := '' @ showExpr e @ ''; '' @ showExpr c @ '' {'') #
     showBlock (Suc d) b @ [(d, ''}'')]"
| "showStmt d (ForLen i e b) =
     (d, ''for '' @ i @ '' := 0; '' @ i @ '' < len('' @ showExpr e @ ''); '' @ i @ ''++ {'') #
     showBlock (Suc d) b @ [(d, ''}'')]"
| "showStmt d (ForRange i k e b) =
     (d, ''for '' @ i @ '', '' @ k @ '' := range '' @ showExpr e @ '' {'') #
     showBlock (Suc d) b @ [(d, ''}'')]"
| "showBlock d [] = []"
| "showBlock d (s # ss) = showStmt d s @ showBlock d ss"


section \<open>What the generated program computes\<close>

text \<open>
  Go values as far as the generated comparators look at them. \<open>VNil\<close> is the nil
  pointer, the nil slice and the nil map; a pointer is given by the value it points to
  (the comparators never compare addresses); a map is the list of its entries, in the
  order they were inserted.
\<close>

datatype val =
    VNil
  | VInt int
  | VBool bool
  | VStr string
  | VPtr val
  | VStruct "(string \<times> val) list"
  | VSlice "val list"
  | VArray "val list"
  | VMap "(val \<times> val) list"

text \<open>
  The values Go's \<^verbatim>\<open>==\<close> is modelled on: basic values, and structs and arrays of
  them. Against \<^verbatim>\<open>nil\<close> every value can be tested.
\<close>

fun comparable :: "val \<Rightarrow> bool" where
  "comparable (VInt i) = True"
| "comparable (VBool b) = True"
| "comparable (VStr s) = True"
| "comparable (VStruct fs) = list_all (\<lambda>f. comparable (snd f)) fs"
| "comparable (VArray vs) = list_all comparable vs"
| "comparable v = False"

text \<open>
  A generated function calls other functions: generated ones, those of the packages
  \<^verbatim>\<open>strings\<close> and \<^verbatim>\<open>bytes\<close>, the sorted-keys function, and \<^verbatim>\<open>Compare\<close> methods of
  the analysed program (the receiver is the first argument). Their meaning is a
  parameter \<open>F\<close>; \<open>None\<close> is a call that does not return a value. Evaluation gives
  \<open>None\<close>, and execution \<open>Stuck\<close>, on a panic and where the model does not determine
  the result.
\<close>

datatype callee = FuncNamed string | MethodNamed string
type_synonym fenv = "callee \<Rightarrow> val list \<Rightarrow> val option"
type_synonym env = "(string \<times> val) list"

fun nilable :: "val \<Rightarrow> bool" where
  "nilable VNil = True"
| "nilable (VPtr v) = True"
| "nilable (VSlice vs) = True"
| "nilable (VMap m) = True"
| "nilable v = False"

fun goEq :: "val \<Rightarrow> val \<Rightarrow> bool option" where
  "goEq VNil b = (if nilable b then Some (b = VNil) else None)"
| "goEq a VNil = (if nilable a then Some False else None)"
| "goEq (VInt a) (VInt b) = Some (a = b)"
| "goEq (VBool a) (VBool b) = Some (a = b)"
| "goEq (VStr a) (VStr b) = Some (a = b)"
| "goEq (VStruct fs) (VStruct gs) =
     (if comparable (VStruct fs) \<and> comparable (VStruct gs) then Some (fs = gs) else None)"
| "goEq (VArray xs) (VArray ys) =
     (if comparable (VArray xs) \<and> comparable (VArray ys) then Some (xs = ys) else None)"
| "goEq a b = None"

fun goLt :: "val \<Rightarrow> val \<Rightarrow> bool option" where
  "goLt (VInt a) (VInt b) = Some (a < b)"
| "goLt a b = None"

fun goLen :: "val \<Rightarrow> int option" where
  "goLen VNil = Some 0"
| "goLen (VSlice xs) = Some (int (length xs))"
| "goLen (VArray xs) = Some (int (length xs))"
| "goLen (VMap m) = Some (int (length m))"
| "goLen (VStr s) = Some (int (length s))"
| "goLen v = None"

fun goIndex :: "val \<Rightarrow> val \<Rightarrow> val option" where
  "goIndex (VSlice xs) (VInt i) = (if 0 \<le> i \<and> i < int (length xs) then Some (xs ! nat i) else None)"
| "goIndex (VArray xs) (VInt i) = (if 0 \<le> i \<and> i < int (length xs) then Some (xs ! nat i) else None)"
| "goIndex (VMap m) k = map_of m k"
| "goIndex v k = None"

fun eval :: "fenv \<Rightarrow> env \<Rightarrow> expr \<Rightarrow> val option"
  and evals :: "fenv \<Rightarrow> env \<Rightarrow> expr list \<Rightarrow> val list option" where
  "eval F \<rho> (Var x) = map_of \<rho> x"
| "eval F \<rho> NilLit = Some VNil"
| "eval F \<rho> (IntLit i) = Some (VInt i)"
| "eval F \<rho> (Deref e) = (case eval F \<rho> e of Some (VPtr v) \<Rightarrow> Some v | _ \<Rightarrow> None)"
| "eval F \<rho> (AddrOf e) = map_option VPtr (eval F \<rho> e)"
| "eval F \<rho> (Sel e f) = (case eval F \<rho> e of Some (VStruct fs) \<Rightarrow> map_of fs f | _ \<Rightarrow> None)"
| "eval F \<rho> (Index e i) =
     (case eval F \<rho> e of None \<Rightarrow> None
      | Some v \<Rightarrow> (case eval F \<rho> i of None \<Rightarrow> None | Some k \<Rightarrow> goIndex v k))"
| "eval F \<rho> (Len e) = (case eval F \<rho> e of None \<Rightarrow> None | Some v \<Rightarrow> map_option VInt (goLen v))"
| "eval F \<rho> (Call f es) = (case evals F \<rho> es of None \<Rightarrow> None | Some vs \<Rightarrow> F (FuncNamed f) vs)"
| "eval F \<rho> (MethodCall e m es) =
     (case eval F \<rho> e of None \<Rightarrow> None
      | Some r \<Rightarrow> (case evals F \<rho> es of None \<Rightarrow> None | Some vs \<Rightarrow> F (MethodNamed m) (r # vs)))"
| "eval F \<rho> (Eq a b) =
     (case eval F \<rho> a of None \<Rightarrow> None
      | Some x \<Rightarrow> (case eval F \<rho> b of None \<Rightarrow> None | Some y \<Rightarrow> map_option VBool (goEq x y)))"
| "eval F \<rho> (Neq a b) =
     (case eval F \<rho> a of None \<Rightarrow> None
      | Some x \<Rightarrow> (case eval F \<rho> b of None \<Rightarrow> None
          | Some y \<Rightarrow> map_option (\<lambda>r. VBool (\<not> r)) (goEq x y)))"
| "eval F \<rho> (Lt a b) =
     (case eval F \<rho> a of None \<Rightarrow> None
      | Some x \<Rightarrow> (case eval F \<rho> b of None \<Rightarrow> None | Some y \<Rightarrow> map_option VBool (goLt x y)))"
| "evals F \<rho> [] = Some []"
| "evals F \<rho> (e # es) =
     (case eval F \<rho> e of None \<Rightarrow> None
      | Some v \<Rightarrow> (case evals F \<rho> es of None \<Rightarrow> None | Some vs \<Rightarrow> Some (v # vs)))"

datatype outcome = Normal env | Ret val | Stuck

fun rangeOver :: "val \<Rightarrow> val list option" where
  "rangeOver VNil = Some []"
| "rangeOver (VSlice xs) = Some xs"
| "rangeOver (VArray xs) = Some xs"
| "rangeOver v = None"

fun exec :: "fenv \<Rightarrow> env \<Rightarrow> stmt \<Rightarrow> outcome"
  and execs :: "fenv \<Rightarrow> env \<Rightarrow> stmt list \<Rightarrow> outcome"
  and iter :: "fenv \<Rightarrow> env \<Rightarrow> stmt list \<Rightarrow> env list \<Rightarrow> outcome" where
  "exec F \<rho> (Return e) = (case eval F \<rho> e of None \<Rightarrow> Stuck | Some v \<Rightarrow> Ret v)"
| "exec F \<rho> ReturnTodo = Ret (VInt 0)"
| "exec F \<rho> (Define x e) = (case eval F \<rho> e of None \<Rightarrow> Stuck | Some v \<Rightarrow> Normal ((x, v) # \<rho>))"
| "exec F \<rho> (IfElse c t e) =
     (case eval F \<rho> c of
        Some (VBool b) \<Rightarrow>
          (case execs F \<rho> (if b then t else e) of Normal \<rho>' \<Rightarrow> Normal \<rho> | r \<Rightarrow> r)
      | _ \<Rightarrow> Stuck)"
| "exec F \<rho> (IfInit x e c b) =
     (case eval F \<rho> e of
        None \<Rightarrow> Stuck
      | Some v \<Rightarrow>
          (case eval F ((x, v) # \<rho>) c of
             Some (VBool True) \<Rightarrow>
               (case execs F ((x, v) # \<rho>) b of Normal \<rho>' \<Rightarrow> Normal \<rho> | r \<Rightarrow> r)
           | Some (VBool False) \<Rightarrow> Normal \<rho>
           | _ \<Rightarrow> Stuck))"
| "exec F \<rho> (ForLen i e b) =
     (case eval F \<rho> (Len e) of
        Some (VInt n) \<Rightarrow> iter F \<rho> b (map (\<lambda>k. [(i, VInt (int k))]) [0..<nat n])
      | _ \<Rightarrow> Stuck)"
| "exec F \<rho> (ForRange i k e b) =
     (case eval F \<rho> e of
        None \<Rightarrow> Stuck
      | Some v \<Rightarrow>
          (case rangeOver v of
             None \<Rightarrow> Stuck
           | Some xs \<Rightarrow> iter F \<rho> b (map (\<lambda>j. [(k, xs ! j), (i, VInt (int j))]) [0..<length xs])))"
| "execs F \<rho> [] = Normal \<rho>"
| "execs F \<rho> (s # ss) = (case exec F \<rho> s of Normal \<rho>' \<Rightarrow> execs F \<rho>' ss | r \<Rightarrow> r)"
| "iter F \<rho> b [] = Normal \<rho>"
| "iter F \<rho> b (bind # binds) =
     (case execs F (bind @ \<rho>) b of Normal \<rho>' \<Rightarrow> iter F \<rho> b binds | r \<Rightarrow> r)"

text \<open>The call of a generated function on \<^verbatim>\<open>this\<close> and \<^verbatim>\<open>that\<close>.\<close>

definition run :: "fenv \<Rightarrow> stmt list \<Rightarrow> val \<Rightarrow> val \<Rightarrow> int option" where
  "run F body a b =
     (case execs F [(''this'', a), (''that'', b)] body of Ret (VInt n) \<Rightarrow> Some n | _ \<Rightarrow> None)"

section \<open>The shape of each generated function\<close>

text \<open>
  What \<^verbatim>\<open>field\<close> decides for a field type: a call of a function (generated, or
  \<^verbatim>\<open>strings.Compare\<close>, \<^verbatim>\<open>bytes.Compare\<close>), a call of the method \<^verbatim>\<open>Compare\<close> on
  the two values, or one on the first value and the address of the second.
\<close>

datatype fieldCmp = ByFunc string | ByMethod | ByMethodAddr

fun cmpText :: "fieldCmp \<Rightarrow> string \<Rightarrow> string \<Rightarrow> string" where
  "cmpText (ByFunc f) a b = callStr f a b"
| "cmpText ByMethod a b = a @ ''.Compare('' @ b @ '')''"
| "cmpText ByMethodAddr a b = a @ ''.Compare(&'' @ b @ '')''"

fun cmpExpr :: "fieldCmp \<Rightarrow> expr \<Rightarrow> expr \<Rightarrow> expr" where
  "cmpExpr (ByFunc f) a b = Call f [a, b]"
| "cmpExpr ByMethod a b = MethodCall a ''Compare'' [b]"
| "cmpExpr ByMethodAddr a b = MethodCall a ''Compare'' [AddrOf b]"

definition asInt :: "val option \<Rightarrow> int option" where
  "asInt r = (case r of Some (VInt n) \<Rightarrow> Some n | _ \<Rightarrow> None)"

fun applyCmp :: "fenv \<Rightarrow> fieldCmp \<Rightarrow> val \<Rightarrow> val \<Rightarrow> int option" where
  "applyCmp F (ByFunc f) a b = asInt (F (FuncNamed f) [a, b])"
| "applyCmp F ByMethod a b = asInt (F (MethodNamed ''Compare'') [a, b])"
| "applyCmp F ByMethodAddr a b = asInt (F (MethodNamed ''Compare'') [a, VPtr b])"

text \<open>
  The decision of \<^verbatim>\<open>field\<close> for a type, read off a state of the plugin: the cases of
  its type switch, with the name the registry holds where \<^verbatim>\<open>field\<close> asks for one.
\<close>

definition registered :: "compare \<Rightarrow> gotype \<Rightarrow> fieldCmp option" where
  "registered c t = map_option ByFunc (nameOf (entries (TypesMap c)) t)"

definition cmpOf :: "compare \<Rightarrow> gotype \<Rightarrow> fieldCmp option" where
  "cmpOf c t =
     (case t of
        Basic k \<Rightarrow>
          if k = String then Some (ByFunc (stringsPkg c @ ''.Compare'')) else registered c t
      | Pointer ref \<Rightarrow> (case ref of Named n \<Rightarrow> Some ByMethod | _ \<Rightarrow> registered c t)
      | Array n el \<Rightarrow> registered c t
      | Map k el \<Rightarrow> registered c t
      | Slice el \<Rightarrow>
          if el = Basic Byte then Some (ByFunc (bytesPkg c @ ''.Compare'')) else registered c t
      | Named n \<Rightarrow> Some ByMethodAddr
      | _ \<Rightarrow> None)"

abbreviation vThis :: expr where
  "vThis \<equiv> Var ''this''"

abbreviation vThat :: expr where
  "vThat \<equiv> Var ''that''"

definition nilStmts :: "stmt list" where
  "nilStmts =
     [IfElse (Eq vThis NilLit)
        [IfElse (Eq vThat NilLit) [Return (IntLit 0)] [],
         Return (IntLit (- 1))] [],
      IfElse (Eq vThat NilLit) [Return (IntLit 1)] []]"

definition lenStmts :: "stmt list" where
  "lenStmts =
     [IfElse (Neq (Len vThis) (Len vThat))
        [IfElse (Lt (Len vThis) (Len vThat)) [Return (IntLit (- 1))] [],
         Return (IntLit 1)] []]"

definition ifc :: "expr \<Rightarrow> stmt" where
  "ifc e = IfInit ''c'' e (Neq (Var ''c'') (IntLit 0)) [Return (Var ''c'')]"

definition ptrBody :: "string \<Rightarrow> stmt list" where
  "ptrBody f = nilStmts @ [Return (Call f [Deref vThis, Deref vThat])]"

definition fieldStmt :: "string \<times> fieldCmp \<Rightarrow> stmt" where
  "fieldStmt nf = ifc (cmpExpr (snd nf) (Sel vThis (fst nf)) (Sel vThat (fst nf)))"

definition structBody :: "(string \<times> fieldCmp) list \<Rightarrow> stmt list" where
  "structBody cmps = map fieldStmt cmps @ [Return (IntLit 0)]"

definition elemLoop :: "fieldCmp \<Rightarrow> stmt list" where
  "elemLoop fc =
     [ForLen ''i'' vThis [ifc (cmpExpr fc (Index vThis (Var ''i'')) (Index vThat (Var ''i'')))],
      Return (IntLit 0)]"

definition sliceBody :: "fieldCmp \<Rightarrow> stmt list" where
  "sliceBody fc = nilStmts @ lenStmts @ elemLoop fc"

definition arrayBody :: "fieldCmp \<Rightarrow> stmt list" where
  "arrayBody fc = lenStmts @ elemLoop fc"

definition keyWalk :: "string \<Rightarrow> string \<Rightarrow> fieldCmp \<Rightarrow> fieldCmp \<Rightarrow> stmt list" where
  "keyWalk k1 k2 fcV fcK =
     [Define ''thiskeys'' (Call k1 [vThis]),
      Define ''thatkeys'' (Call k2 [vThat]),
      ForRange ''i'' ''thiskey'' (Var ''thiskeys'')
        [Define ''thatkey'' (Index (Var ''thatkeys'') (Var ''i'')),
         IfElse (Eq (Var ''thiskey'') (Var ''thatkey''))
           [ifc (cmpExpr fcV (Index vThis (Var ''thiskey'')) (Index vThat (Var ''thatkey'')))]
           [ifc (cmpExpr fcK (Var ''thiskey'') (Var ''thatkey''))]],
      Return (IntLit 0)]"

definition mapBody :: "string \<Rightarrow> string \<Rightarrow> fieldCmp \<Rightarrow> fieldCmp \<Rightarrow> stmt list" where
  "mapBody k1 k2 fcV fcK = nilStmts @ lenStmts @ keyWalk k1 k2 fcV fcK"

definition basicBody :: "string \<Rightarrow> basicKind \<Rightarrow> stmt list" where
  "basicBody strings k =
     (if k = String then [Return (Call (strings @ ''.Compare'') [vThis, vThat])]
      else if k = Complex128 \<or> k = Complex64 then [ReturnTodo]
      else if k = Bool then
        [IfElse (Eq vThis vThat) [Return (IntLit 0)] [],
         IfElse vThat [Return (IntLit (- 1))] [],
         Return (IntLit 1)]
      else
        [IfElse (Neq vThis vThat)
           [IfElse (Lt vThis vThat) [Return (IntLit (- 1))] [Return (IntLit 1)]] [],
         Return (IntLit 0)])"

text \<open>The lines of a whole function, printed at nesting depth \<open>d\<close>.\<close>

definition showFunc :: "nat \<Rightarrow> string \<Rightarrow> string \<Rightarrow> stmt list \<Rightarrow> (nat \<times> string) list" where
  "showFunc d name typeStr body =
     [(d, []), (d, ''func '' @ name @ ''(this, that '' @ typeStr @ '') int {'')]
     @ showBlock (Suc d) body @ [(d, ''}'')]"

text \<open>The name under which the sorted-keys plugin holds a type.\<close>

definition keysName :: "compare \<Rightarrow> gotype \<Rightarrow> string option" where
  "keysName c t = (case sortedKeys c of None \<Rightarrow> None | Some sk \<Rightarrow> nameOf (entries sk) t)"

section \<open>The orderings as the spec words them\<close>

text \<open>
  "Return the first non-zero comparison; when every comparison is zero return 0":
  over the results of the comparisons in order, \<open>None\<close> being a comparison that does
  not return.
\<close>

fun firstNonZero :: "int option list \<Rightarrow> int option" where
  "firstNonZero [] = Some 0"
| "firstNonZero (None # rs) = None"
| "firstNonZero (Some r # rs) = (if r \<noteq> 0 then Some r else firstNonZero rs)"



text \<open>The comparison of a field of two structs, given by their lists of fields.\<close>

definition compareField :: "fenv \<Rightarrow> (string \<times> val) list \<Rightarrow> (string \<times> val) list
    \<Rightarrow> string \<times> fieldCmp \<Rightarrow> int option" where
  "compareField F fa fb nf =
     (case map_of fa (fst nf) of
        None \<Rightarrow> None
      | Some va \<Rightarrow>
          (case map_of fb (fst nf) of None \<Rightarrow> None | Some vb \<Rightarrow> applyCmp F (snd nf) va vb))"


text \<open>
  Modelled from the spec: the sorted-keys operation is another plugin, not among the
  sources. The spec: "a deterministic sorted key sequence for each map". It is taken to
  return the keys of the map sorted by an order \<open>le\<close> on keys, here by insertion.
\<close>

fun insertKey :: "(val \<Rightarrow> val \<Rightarrow> bool) \<Rightarrow> val \<Rightarrow> val list \<Rightarrow> val list" where
  "insertKey le k [] = [k]"
| "insertKey le k (x # xs) = (if le k x then k # x # xs else x # insertKey le k xs)"

fun sortKeys :: "(val \<Rightarrow> val \<Rightarrow> bool) \<Rightarrow> val list \<Rightarrow> val list" where
  "sortKeys le [] = []"
| "sortKeys le (k # ks) = insertKey le k (sortKeys le ks)"

definition sortedKeysOf :: "(val \<Rightarrow> val \<Rightarrow> bool) \<Rightarrow> (val \<times> val) list \<Rightarrow> val list" where
  "sortedKeysOf le m = sortKeys le (map fst m)"

section \<open>Auxiliary notions for the proofs\<close>

text \<open>A later state of the plugin: the packages and the names given so far are kept.\<close>

definition grows :: "compare \<Rightarrow> compare \<Rightarrow> bool" where
  "grows c c' =
     (stringsPkg c' = stringsPkg c \<and> bytesPkg c' = bytesPkg c \<and> qual c' = qual c
      \<and> (\<forall>t n. nameOf (entries (TypesMap c)) t = Some n
            \<longrightarrow> nameOf (entries (TypesMap c')) t = Some n))"

text \<open>The decisions of \<^verbatim>\<open>field\<close> for the fields of a struct, in declaration order.\<close>

fun fieldCmps :: "compare \<Rightarrow> (string \<times> gotype) list \<Rightarrow> (string \<times> fieldCmp) list option" where
  "fieldCmps c [] = Some []"
| "fieldCmps c ((n, t) # fs) =
     (case cmpOf c t of
        None \<Rightarrow> None
      | Some fc \<Rightarrow> (case fieldCmps c fs of None \<Rightarrow> None | Some cmps \<Rightarrow> Some ((n, fc) # cmps)))"

text \<open>
  The program of the function generated for a type, read off the state of the plugin
  after the generation: the branch of \<^verbatim>\<open>genFuncFor\<close> for the underlying type, with the
  names the registries hold.
\<close>

definition bodyOf :: "decls \<Rightarrow> compare \<Rightarrow> gotype \<Rightarrow> stmt list option" where
  "bodyOf D c typ =
     (case Underlying D typ of
        Pointer ref \<Rightarrow> map_option ptrBody (nameOf (entries (TypesMap c)) ref)
      | Basic k \<Rightarrow> Some (basicBody (stringsPkg c) k)
      | Struct flds \<Rightarrow> map_option structBody (fieldCmps c flds)
      | Slice el \<Rightarrow> map_option sliceBody (cmpOf c el)
      | Array n el \<Rightarrow> map_option arrayBody (cmpOf c el)
      | Map key el \<Rightarrow>
          (case keysName c typ of
             None \<Rightarrow> None
           | Some k \<Rightarrow>
               (case cmpOf c el of
                  None \<Rightarrow> None
                | Some fcV \<Rightarrow> map_option (mapBody k k fcV) (cmpOf c key)))
      | _ \<Rightarrow> None)"

text \<open>The kinds that fall to the default branch of \<^verbatim>\<open>field\<close>, and of \<^verbatim>\<open>genFuncFor\<close>.\<close>

fun unsupportedFieldKind :: "gotype \<Rightarrow> bool" where
  "unsupportedFieldKind (Basic k) = False"
| "unsupportedFieldKind (Pointer t) = False"
| "unsupportedFieldKind (Array n t) = False"
| "unsupportedFieldKind (Map k t) = False"
| "unsupportedFieldKind (Slice t) = False"
| "unsupportedFieldKind (Named n) = False"
| "unsupportedFieldKind t = True"

fun unsupportedCompareKind :: "gotype \<Rightarrow> bool" where
  "unsupportedCompareKind (Pointer t) = False"
| "unsupportedCompareKind (Basic k) = False"
| "unsupportedCompareKind (Struct fs) = False"
| "unsupportedCompareKind (Slice t) = False"
| "unsupportedCompareKind (Array n t) = False"
| "unsupportedCompareKind (Map k t) = False"
| "unsupportedCompareKind t = True"

text \<open>The state of the plugin after the lines 87 to 92 of \<^verbatim>\<open>genFuncFor\<close>.\<close>

definition opened :: "gotype \<Rightarrow> compare \<Rightarrow> compare" where
  "opened typ c =
     (let c2 = emit [P []] (c\<lparr>TypesMap := Generating typ (TypesMap c)\<rparr>) in
      emit [P (''func '' @ fst (getName typ c2) @ ''(this, that '' @ qual c typ @ '') int {''), In]
        (snd (getName typ c2)))"


section \<open>The concrete scenarios\<close>

text \<open>
  The declarations of the analysed program: a struct \<^verbatim>\<open>T\<close> of an int and a string,
  a linked-list node with a pointer to its own type, and a struct with a channel.
\<close>

definition exDecls :: decls where
  "exDecls n =
     (if n = ''T'' then Struct [(''A'', Basic IntKind), (''B'', Basic String)]
      else if n = ''Node'' then Struct [(''Val'', Basic IntKind), (''Next'', Pointer (Named ''Node''))]
      else if n = ''Bad'' then Struct [(''A'', Basic IntKind), (''C'', Chan (Basic IntKind))]
      else Basic Invalid)"

text \<open>
  A plugin as the driver sets it up: constructed from call sites \<^verbatim>\<open>name(x, y)\<close>,
  each with both arguments of the type given, on a new printer, with the sorted-keys
  plugin bound.
\<close>

definition exSite :: "string \<times> gotype \<Rightarrow> callExpr" where
  "exSite nt = \<lparr>Fun = Ident (fst nt), Args = [snd nt, snd nt]\<rparr>"

definition exPlugin :: "(string \<times> gotype) list \<Rightarrow> compare" where
  "exPlugin sites =
     \<lparr>TypesMap = (case registerCalls ''deriveCompare'' (map exSite sites)
                      (newTypesMap typeString ''deriveCompare'') of
                    Inr tm \<Rightarrow> tm
                  | Inl e \<Rightarrow> newTypesMap typeString ''deriveCompare''),
      qual = typeString, printer = newPrinter,
      bytesPkg = NewImport ''bytes'', stringsPkg = NewImport ''strings'',
      sortedKeys = Some (newTypesMap typeString ''deriveSortedKeys'')\<rparr>"

text \<open>
  The functions the generated comparators of the scenarios call:
  \<^verbatim>\<open>strings.Compare\<close> (the order of the bytes), the sorted keys of a map with int
  keys, and the generated comparator of \<^verbatim>\<open>int\<close>, which is the run of its own generated
  body.
\<close>

fun strCmp :: "string \<Rightarrow> string \<Rightarrow> int" where
  "strCmp [] [] = 0"
| "strCmp [] (y # ys) = - 1"
| "strCmp (x # xs) [] = 1"
| "strCmp (x # xs) (y # ys) =
     (if (of_char x :: nat) < of_char y then - 1
      else if (of_char y :: nat) < of_char x then 1
      else strCmp xs ys)"

fun intLe :: "val \<Rightarrow> val \<Rightarrow> bool" where
  "intLe (VInt a) (VInt b) = (a \<le> b)"
| "intLe a b = False"

definition noCalls :: fenv where
  "noCalls f args = None"

fun exF :: "callee \<Rightarrow> val list \<Rightarrow> val option" where
  "exF (FuncNamed f) [VMap m] =
     (if f = ''deriveSortedKeys_map[int]string'' then Some (VSlice (sortedKeysOf intLe m))
      else None)"
| "exF (FuncNamed f) [VStr s, VStr t] =
     (if f = ''strings.Compare'' then Some (VInt (strCmp s t)) else None)"
| "exF (FuncNamed f) [VInt a, VInt b] =
     (if f = ''deriveCompare_int''
      then map_option VInt (run noCalls (basicBody ''strings'' IntKind) (VInt a) (VInt b))
      else None)"
| "exF f args = None"

text \<open>The state an entry of the registry is in.\<close>

fun stateOf :: "(gotype \<times> string \<times> genState) list \<Rightarrow> gotype \<Rightarrow> genState option" where
  "stateOf [] t = None"
| "stateOf ((t', n, s) # es) t = (if t' = t then Some s else stateOf es t)"

text \<open>
  A state of the plugin reached from another by generation: the names and the
  packages are kept, a type in generation stays so, the registry keeps holding each
  type once, and the printer holds the lines it held, followed by new ones.
\<close>

definition later :: "compare \<Rightarrow> compare \<Rightarrow> bool" where
  "later c c' =
     (grows c c'
      \<and> (\<forall>t. stateOf (entries (TypesMap c)) t = Some StGenerating
            \<longrightarrow> stateOf (entries (TypesMap c')) t = Some StGenerating)
      \<and> (distinct (map fst (entries (TypesMap c)))
            \<longrightarrow> distinct (map fst (entries (TypesMap c'))))
      \<and> (\<exists>ls. lines (printer c') = lines (printer c) @ ls))"

section \<open>The driver\<close>

text \<open>
  Modelled from the spec: the driver is not among the sources. The spec: "driver
  repeatedly pops an unprocessed type from the Registry and asks the Dispatcher to
  synthesize its function, which may register new types as dependencies; loop until
  the Registry reports no pending types". A round is one call of \<^verbatim>\<open>Generate\<close>, which
  goes over the types pending at its start; the rounds are counted down from a bound,
  and \<open>None\<close> is a run that the bound cut off.
\<close>

fun drive :: "nat \<Rightarrow> decls \<Rightarrow> compare \<Rightarrow> (error option \<times> compare) option" where
  "drive 0 D c = None"
| "drive (Suc n) D c =
     (if ToGenerate (TypesMap c) = [] then Some (None, c)
      else (case Generate D c of
              (Some err, c') \<Rightarrow> Some (Some err, c')
            | (None, c') \<Rightarrow> drive n D c'))"


section \<open>The types a generation reaches\<close>

text \<open>
  The types for which \<^verbatim>\<open>field\<close> asks the registry for a name: the argument of
  \<^verbatim>\<open>this.GetFuncName\<close> in the branches of its type switch that call it.
\<close>

fun fieldRequests :: "gotype \<Rightarrow> gotype list" where
  "fieldRequests (Basic k) = (if k = String then [] else [Basic k])"
| "fieldRequests (Pointer ref) = (case ref of Named n \<Rightarrow> [] | _ \<Rightarrow> [Pointer ref])"
| "fieldRequests (Array n el) = [Array n el]"
| "fieldRequests (Map k el) = [Map k el]"
| "fieldRequests (Slice el) = (if el = Basic Byte then [] else [Slice el])"
| "fieldRequests t = []"

text \<open>
  The types for which \<^verbatim>\<open>genFuncFor\<close> asks the registry for a name in the branch of
  the underlying type, besides the type itself (line 91): the element of a pointer
  (line 111), and what \<^verbatim>\<open>field\<close> asks for on the fields of a struct, on the element of
  a slice or an array, and on the value and the key of a map.
\<close>

definition requests :: "decls \<Rightarrow> gotype \<Rightarrow> gotype list" where
  "requests D typ =
     (case Underlying D typ of
        Pointer ref \<Rightarrow> [ref]
      | Struct flds \<Rightarrow> concat (map (\<lambda>f. fieldRequests (snd f)) flds)
      | Slice el \<Rightarrow> fieldRequests el
      | Array n el \<Rightarrow> fieldRequests el
      | Map key el \<Rightarrow> fieldRequests el @ fieldRequests key
      | _ \<Rightarrow> [])"

text \<open>
  A list of types that holds, with each of its types, the types its generation asks for;
  and a plugin whose registry holds only types of the list. The types of a program are
  finitely many, so the types reached from its call sites form such a list.
\<close>

definition closedUnder :: "decls \<Rightarrow> gotype list \<Rightarrow> bool" where
  "closedUnder D S = (\<forall>t \<in> set S. set (requests D t) \<subseteq> set S)"

definition registeredIn :: "gotype list \<Rightarrow> compare \<Rightarrow> bool" where
  "registeredIn S c = (set (map fst (entries (TypesMap c))) \<subseteq> set S)"

text \<open>The types the registry holds as being generated.\<close>

definition generatingIn :: "compare \<Rightarrow> gotype set" where
  "generatingIn c = {t. stateOf (entries (TypesMap c)) t = Some StGenerating}"

text \<open>
  A registry after requests of names, in order; and a state of the plugin whose
  registry is reached from that of another by requests of names only.
\<close>

fun requestAll :: "gotype list \<Rightarrow> typesMap \<Rightarrow> typesMap" where
  "requestAll [] tm = tm"
| "requestAll (t # ts) tm = requestAll ts (snd (GetFuncName t tm))"

definition requested :: "compare \<Rightarrow> compare \<Rightarrow> bool" where
  "requested c c' = (\<exists>ts. TypesMap c' = requestAll ts (TypesMap c))"

text \<open>Entries that are all pending.\<close>

definition allRequested :: "(gotype \<times> string \<times> genState) list \<Rightarrow> bool" where
  "allRequested es = (\<forall>e \<in> set es. snd (snd e) = StRequested)"

text \<open>
  The text of one function for each entry of a registry, in the order of the entries,
  each under the name of its entry, with the bodies given.
\<close>

definition funcTexts :: "nat \<Rightarrow> (gotype \<Rightarrow> string) \<Rightarrow> (gotype \<times> string \<times> genState) list
    \<Rightarrow> stmt list list \<Rightarrow> (nat \<times> string) list" where
  "funcTexts d q es bodies =
     concat (map2 (\<lambda>e body. showFunc d (fst (snd e)) (q (fst e)) body) es bodies)"

text \<open>The entries after their generation has started.\<close>

definition generated :: "(gotype \<times> string \<times> genState) list \<Rightarrow> (gotype \<times> string \<times> genState) list" where
  "generated es = map (\<lambda>e. (fst e, fst (snd e), StGenerating)) es"

text \<open>
  The linked-list scenario: one call site \<^verbatim>\<open>deriveCompare(x, y)\<close> with arguments of type
  \<^verbatim>\<open>*Node\<close>, the states of the plugin in its run (the registry and the printed lines
  vary), and the text of the three functions.
\<close>

definition exNodePlugin :: compare where
  "exNodePlugin = exPlugin [(''deriveCompare'', Pointer (Named ''Node''))]"

definition exNodeState :: "(gotype \<times> string \<times> genState) list \<Rightarrow> (nat \<times> string) list \<Rightarrow> compare" where
  "exNodeState es ls =
     \<lparr>TypesMap = \<lparr>prefix = ''deriveCompare'', canonicalName = typeString, entries = es\<rparr>,
      qual = typeString, printer = \<lparr>indent = 0, lines = ls\<rparr>,
      bytesPkg = ''bytes'', stringsPkg = ''strings'',
      sortedKeys = Some \<lparr>prefix = ''deriveSortedKeys'', canonicalName = typeString, entries = []\<rparr>\<rparr>"

definition exPtrText :: "(nat \<times> string) list" where
  "exPtrText =
     [(0, []), (0, ''func deriveCompare(this, that *Node) int {''),
      (1, ''if this == nil {''), (2, ''if that == nil {''),
      (3, ''return 0''), (2, ''}''), (2, ''return -1''), (1, ''}''),
      (1, ''if that == nil {''), (2, ''return 1''), (1, ''}''),
      (1, ''return deriveCompare_Node(*this, *that)''), (0, ''}'')]"

definition exNodeText :: "(nat \<times> string) list" where
  "exNodeText =
     [(0, []), (0, ''func deriveCompare_Node(this, that Node) int {''),
      (1, ''if c := deriveCompare_int(this.Val, that.Val); c != 0 {''),
      (2, ''return c''), (1, ''}''),
      (1, ''if c := this.Next.Compare(that.Next); c != 0 {''),
      (2, ''return c''), (1, ''}''), (1, ''return 0''), (0, ''}'')]"

definition exIntText :: "(nat \<times> string) list" where
  "exIntText =
     [(0, []), (0, ''func deriveCompare_int(this, that int) int {''),
      (1, ''if this != that {''), (2, ''if this < that {''),
      (3, ''return -1''), (2, ''} else {''), (3, ''return 1''),
      (2, ''}''), (1, ''}''), (1, ''return 0''), (0, ''}'')]"

section \<open>Construction: the call sites\<close>

lemma registerCalls_append:
  "registerCalls pre (xs @ ys) tm =
     (case registerCalls pre xs tm of Inl e \<Rightarrow> Inl e | Inr tm' \<Rightarrow> registerCalls pre ys tm')"
  by (induction xs arbitrary: tm) (auto simp: Let_def split: funExpr.splits sum.splits)

lemma registerCalls_skip:
  "Fun call = OtherExpr \<or> (\<exists>name. Fun call = Ident name \<and> \<not> HasPrefix name pre)
   \<Longrightarrow> registerCalls pre (call # ys) tm = registerCalls pre ys tm"
  by (auto split: funExpr.splits)

text \<open>
  Claim C10. A call whose callee is not an identifier, or whose callee name does not
  start with the prefix, is skipped: alone it leaves the registry as it was and gives no
  error, and anywhere in the list of calls the constructor's result (error or plugin) is
  the result without it, whatever the call's arguments are.
\<close>

theorem skipped_calls:
  assumes "Fun call = OtherExpr \<or> (\<exists>name. Fun call = Ident name \<and> \<not> HasPrefix name pre)"
  shows "registerCalls pre [call] tm = Inr tm
       \<and> registerCalls pre (xs @ call # ys) tm = registerCalls pre (xs @ ys) tm
       \<and> newCompare p q pre (xs @ call # ys) = newCompare p q pre (xs @ ys)"
proof -
  have one: "registerCalls pre (call # zs) t = registerCalls pre zs t" for zs t
    using assms by (rule registerCalls_skip)
  have two: "registerCalls pre (xs @ call # ys) t = registerCalls pre (xs @ ys) t" for t
    by (simp add: registerCalls_append one del: registerCalls.simps split: sum.splits)
  show ?thesis
    using one [of "[]" tm] two by (simp add: newCompare_def)
qed

theorem skipped_calls_witness:
  "registerCalls ''deriveCompare''
      [\<lparr>Fun = Ident ''deriveEqual'', Args = [Basic IntKind, Basic String, Basic Bool]\<rparr>]
      (newTypesMap typeString ''deriveCompare'')
     = Inr (newTypesMap typeString ''deriveCompare'')
   \<and> newCompare newPrinter typeString ''deriveCompare''
      [\<lparr>Fun = OtherExpr, Args = []\<rparr>,
       \<lparr>Fun = Ident ''deriveEqual'', Args = [Basic IntKind, Basic String, Basic Bool]\<rparr>,
       \<lparr>Fun = Ident ''deriveCompare'', Args = [Basic IntKind, Basic IntKind]\<rparr>]
     = newCompare newPrinter typeString ''deriveCompare''
      [\<lparr>Fun = OtherExpr, Args = []\<rparr>,
       \<lparr>Fun = Ident ''deriveCompare'', Args = [Basic IntKind, Basic IntKind]\<rparr>]"
  using skipped_calls [of "\<lparr>Fun = Ident ''deriveEqual'', Args = [Basic IntKind, Basic String, Basic Bool]\<rparr>"
      "''deriveCompare''" "newTypesMap typeString ''deriveCompare''"
      "[\<lparr>Fun = OtherExpr, Args = []\<rparr>]"
      "[\<lparr>Fun = Ident ''deriveCompare'', Args = [Basic IntKind, Basic IntKind]\<rparr>]"
      newPrinter typeString]
  by (simp add: HasPrefix_def)

lemma registerCalls_invalid:
  "call \<in> set calls \<Longrightarrow> invalidSite pre call \<Longrightarrow>
   \<exists>e n site. registerCalls pre calls tm = Inl e \<and> citedName e = Some n
        \<and> site \<in> set calls \<and> Fun site = Ident n \<and> HasPrefix n pre"
proof (induction calls arbitrary: tm)
  case Nil
  then show ?case by simp
next
  case (Cons a calls)
  show ?case
  proof (cases "Fun a")
    case OtherExpr
    with Cons.prems have "call \<in> set calls" by (auto simp: invalidSite_def)
    from Cons.IH [OF this Cons.prems(2), of tm] OtherExpr show ?thesis by auto
  next
    case (Ident name)
    show ?thesis
    proof (cases "HasPrefix name pre")
      case False
      with Cons.prems Ident have "call \<in> set calls" by (auto simp: invalidSite_def)
      from Cons.IH [OF this Cons.prems(2), of tm] Ident False show ?thesis by auto
    next
      case True
      show ?thesis
      proof (cases "length (Args a) \<noteq> 2 \<or> Args a ! 0 \<noteq> Args a ! 1")
        case True
        with Ident \<open>HasPrefix name pre\<close> show ?thesis
          by (auto simp: Let_def intro!: exI [of _ a])
      next
        case valid: False
        show ?thesis
        proof (cases "SetFuncName (Args a ! 0) name tm")
          case (Inl e)
          then have "e = ConflictingFuncName name (Args a ! 0)"
            by (auto simp: SetFuncName_def split: option.splits if_splits)
          with Inl Ident True valid show ?thesis
            by (auto simp: Let_def intro!: exI [of _ a])
        next
          case (Inr tm')
          from valid Cons.prems Ident True have "call \<in> set calls"
            by (auto simp: invalidSite_def)
          from Cons.IH [OF this Cons.prems(2), of tm'] Inr Ident True valid show ?thesis
            by (auto simp: Let_def)
        qed
      qed
    qed
  qed
qed

text \<open>
  Claim C6. If some call site with the prefix has not exactly two arguments, or two
  arguments of different types, the constructor returns an error and no plugin: there is
  no registry and no printer to generate from, for any call site. The error cites the
  callee name of a call site of the list; when the sites before the invalid one were
  registered without error, it is the arity error, or the type error, of that very site.
\<close>

theorem invalid_site_rejected:
  "(call \<in> set calls \<and> invalidSite pre call \<longrightarrow>
      (\<exists>e n site. newCompare p q pre calls = Inl e \<and> citedName e = Some n
          \<and> site \<in> set calls \<and> Fun site = Ident n \<and> HasPrefix n pre))
   \<and> (registerCalls pre xs (newTypesMap q pre) = Inr tm \<and> Fun call = Ident name
        \<and> HasPrefix name pre \<and> length (Args call) \<noteq> 2 \<longrightarrow>
      newCompare p q pre (xs @ call # ys) = Inl (NotTwoArguments name))
   \<and> (registerCalls pre xs (newTypesMap q pre) = Inr tm \<and> Fun call = Ident name
        \<and> HasPrefix name pre \<and> Args call = [t0, t1] \<and> t0 \<noteq> t1 \<longrightarrow>
      newCompare p q pre (xs @ call # ys) = Inl (DifferentTypes name t0 t1))"
proof (intro conjI impI)
  assume "call \<in> set calls \<and> invalidSite pre call"
  then obtain e n site where "registerCalls pre calls (newTypesMap q pre) = Inl e"
    "citedName e = Some n" "site \<in> set calls" "Fun site = Ident n" "HasPrefix n pre"
    using registerCalls_invalid [of call calls pre "newTypesMap q pre"] by blast
  then show "\<exists>e n site. newCompare p q pre calls = Inl e \<and> citedName e = Some n
          \<and> site \<in> set calls \<and> Fun site = Ident n \<and> HasPrefix n pre"
    by (auto simp: newCompare_def)
next
  assume "registerCalls pre xs (newTypesMap q pre) = Inr tm \<and> Fun call = Ident name
        \<and> HasPrefix name pre \<and> length (Args call) \<noteq> 2"
  then show "newCompare p q pre (xs @ call # ys) = Inl (NotTwoArguments name)"
    by (simp add: newCompare_def registerCalls_append)
next
  assume "registerCalls pre xs (newTypesMap q pre) = Inr tm \<and> Fun call = Ident name
        \<and> HasPrefix name pre \<and> Args call = [t0, t1] \<and> t0 \<noteq> t1"
  then show "newCompare p q pre (xs @ call # ys) = Inl (DifferentTypes name t0 t1)"
    by (simp add: newCompare_def registerCalls_append)
qed

text \<open>
  The sixth scenario of the spec: a valid site, then one with mismatched argument
  types, then one with three arguments. The run is rejected at the second site.
\<close>

theorem invalid_site_rejected_witness:
  "newCompare newPrinter typeString ''deriveCompare''
      [\<lparr>Fun = Ident ''deriveCompare'', Args = [Basic IntKind, Basic IntKind]\<rparr>,
       \<lparr>Fun = Ident ''deriveCompareB'', Args = [Basic IntKind, Basic String]\<rparr>,
       \<lparr>Fun = Ident ''deriveCompareC'', Args = [Basic Bool, Basic Bool, Basic Bool]\<rparr>]
     = Inl (DifferentTypes ''deriveCompareB'' (Basic IntKind) (Basic String))"
proof -
  let ?a = "\<lparr>Fun = Ident ''deriveCompare'', Args = [Basic IntKind, Basic IntKind]\<rparr>"
  let ?b = "\<lparr>Fun = Ident ''deriveCompareB'', Args = [Basic IntKind, Basic String]\<rparr>"
  let ?c = "\<lparr>Fun = Ident ''deriveCompareC'', Args = [Basic Bool, Basic Bool, Basic Bool]\<rparr>"
  let ?tm = "\<lparr>prefix = ''deriveCompare'', canonicalName = typeString,
              entries = [(Basic IntKind, ''deriveCompare'', StRequested)]\<rparr>"
  have pre: "registerCalls ''deriveCompare'' [?a] (newTypesMap typeString ''deriveCompare'') = Inr ?tm"
    by (simp add: HasPrefix_def SetFuncName_def newTypesMap_def)
  have site: "Fun ?b = Ident ''deriveCompareB'' \<and> HasPrefix ''deriveCompareB'' ''deriveCompare''
      \<and> Args ?b = [Basic IntKind, Basic String] \<and> Basic IntKind \<noteq> Basic String"
    by (simp add: HasPrefix_def)
  from invalid_site_rejected [of ?b "[?a, ?b, ?c]" "''deriveCompare''" newPrinter typeString
      "[?a]" ?tm "''deriveCompareB''" "[?c]" "Basic IntKind" "Basic String"] pre site
  show ?thesis by simp
qed

section \<open>The dispatch on a field\<close>

text \<open>
  Claim C9. For a field of a named type, and for a field that is a pointer to a named
  type, the dispatch returns a call of the \<^verbatim>\<open>Compare\<close> method of the field and leaves the
  plugin as it was: it requests no generated function. It does so for every named type
  (the code does not look for the method), so also for each that has the method.
\<close>

theorem field_named_delegates:
  "field thisField thatField (Named n) c
       = (Inr (thisField @ ''.Compare(&'' @ thatField @ '')''), c)
   \<and> field thisField thatField (Pointer (Named n)) c
       = (Inr (thisField @ ''.Compare('' @ thatField @ '')''), c)"
  by (simp add: field_def)

theorem field_named_delegates_witness:
  "field ''this.Next'' ''that.Next'' (Pointer (Named ''Node''))
      \<lparr>TypesMap = newTypesMap typeString ''deriveCompare'', qual = typeString,
       printer = newPrinter, bytesPkg = ''bytes'', stringsPkg = ''strings'', sortedKeys = None\<rparr>
     = (Inr ''this.Next.Compare(that.Next)'',
        \<lparr>TypesMap = newTypesMap typeString ''deriveCompare'', qual = typeString,
         printer = newPrinter, bytesPkg = ''bytes'', stringsPkg = ''strings'', sortedKeys = None\<rparr>)
   \<and> fst (field ''this.Time'' ''that.Time'' (Named ''Time'')
      \<lparr>TypesMap = newTypesMap typeString ''deriveCompare'', qual = typeString,
       printer = newPrinter, bytesPkg = ''bytes'', stringsPkg = ''strings'', sortedKeys = None\<rparr>)
     = Inr ''this.Time.Compare(&that.Time)''"
  using field_named_delegates [of "''this.Next''" "''that.Next''" "''Node''"
      "\<lparr>TypesMap = newTypesMap typeString ''deriveCompare'', qual = typeString,
       printer = newPrinter, bytesPkg = ''bytes'', stringsPkg = ''strings'', sortedKeys = None\<rparr>"]
    field_named_delegates [of "''this.Time''" "''that.Time''" "''Time''"
      "\<lparr>TypesMap = newTypesMap typeString ''deriveCompare'', qual = typeString,
       printer = newPrinter, bytesPkg = ''bytes'', stringsPkg = ''strings'', sortedKeys = None\<rparr>"]
  by simp

section \<open>The emitted text is the print of a program\<close>

subsection \<open>The registry keeps its names\<close>

lemma nameOf_append:
  "nameOf (es @ [(t, n, s)]) t' =
     (case nameOf es t' of Some m \<Rightarrow> Some m | None \<Rightarrow> if t = t' then Some n else None)"
  by (induction es) auto

lemma nameOf_markGenerating [simp]: "nameOf (markGenerating t es) t' = nameOf es t'"
  by (induction es) auto

lemma GetFuncName_name:
  "nameOf (entries (snd (GetFuncName t tm))) t = Some (fst (GetFuncName t tm))"
  by (simp add: GetFuncName_def nameOf_append split: option.splits)

lemma GetFuncName_keeps:
  "nameOf (entries tm) t' = Some n \<Longrightarrow> nameOf (entries (snd (GetFuncName t tm))) t' = Some n"
  by (simp add: GetFuncName_def nameOf_append split: option.splits)

lemma GetFuncName_again:
  "GetFuncName t (snd (GetFuncName t tm)) = (fst (GetFuncName t tm), snd (GetFuncName t tm))"
  by (simp add: GetFuncName_def nameOf_append split: option.splits)

lemma GetFuncName_known:
  "nameOf (entries tm) t = Some n \<Longrightarrow> GetFuncName t tm = (n, tm)"
  by (simp add: GetFuncName_def)

subsection \<open>The printer\<close>

lemma pemit_append: "pemit (xs @ ys) p = pemit ys (pemit xs p)"
  by (induction xs arbitrary: p) auto

lemma emit_simps [simp]:
  "printer (emit cs c) = pemit cs (printer c)"
  "TypesMap (emit cs c) = TypesMap c"
  "qual (emit cs c) = qual c"
  "bytesPkg (emit cs c) = bytesPkg c"
  "stringsPkg (emit cs c) = stringsPkg c"
  "sortedKeys (emit cs c) = sortedKeys c"
  by (simp_all add: emit_def)

lemma getName_simps [simp]:
  "printer (snd (getName t c)) = printer c"
  "TypesMap (snd (getName t c)) = snd (GetFuncName t (TypesMap c))"
  "qual (snd (getName t c)) = qual c"
  "bytesPkg (snd (getName t c)) = bytesPkg c"
  "stringsPkg (snd (getName t c)) = stringsPkg c"
  "sortedKeys (snd (getName t c)) = sortedKeys c"
  "fst (getName t c) = fst (GetFuncName t (TypesMap c))"
  by (simp_all add: getName_def split: prod.splits)

lemma showInt_lits [simp]: "showInt 0 = ''0''" "showInt 1 = ''1''" "showInt (- 1) = ''-1''"
  by (simp_all add: showInt_def showNat.simps)

lemma pemit_nilLines:
  "pemit nilLines p = p\<lparr>lines := lines p @ showBlock (indent p) nilStmts\<rparr>"
  by (simp add: nilLines_def nilStmts_def)

lemma pemit_lenLines:
  "pemit lenLines p = p\<lparr>lines := lines p @ showBlock (indent p) lenStmts\<rparr>"
  by (simp add: lenLines_def lenStmts_def)

lemma pemit_ifcLines:
  "pemit (ifcLines (showExpr e)) p = p\<lparr>lines := lines p @ showStmt (indent p) (ifc e)\<rparr>"
  by (simp add: ifcLines_def ifc_def)

lemma showBlock_append: "showBlock d (xs @ ys) = showBlock d xs @ showBlock d ys"
  by (induction xs) auto

lemma cmpText_showExpr: "cmpText fc (showExpr a) (showExpr b) = showExpr (cmpExpr fc a b)"
  by (cases fc) (simp_all add: callStr_def)


subsection \<open>field\<close>

lemma grows_refl [simp]: "grows c c"
  by (simp add: grows_def)

lemma grows_trans: "grows a b \<Longrightarrow> grows b c \<Longrightarrow> grows a c"
  by (simp add: grows_def)

lemma grows_emit [simp]: "grows c (emit cs c') = grows c c'" "grows (emit cs c) c' = grows c c'"
  by (simp_all add: grows_def)

lemma grows_getName [simp]: "grows c (snd (getName t c))"
  by (simp add: grows_def GetFuncName_keeps)

lemma registered_emit [simp]: "registered (emit cs c) t = registered c t"
  by (simp add: registered_def)

lemma cmpOf_emit [simp]: "cmpOf (emit cs c) t = cmpOf c t"
  by (simp add: cmpOf_def split: gotype.splits)

lemma registered_grows: "grows c c' \<Longrightarrow> registered c t = Some fc \<Longrightarrow> registered c' t = Some fc"
  by (auto simp: registered_def grows_def)

lemma cmpOf_grows:
  assumes "grows c c'" "cmpOf c t = Some fc"
  shows "cmpOf c' t = Some fc"
proof -
  have pk: "stringsPkg c' = stringsPkg c" "bytesPkg c' = bytesPkg c"
    using assms(1) by (simp_all add: grows_def)
  have reg: "registered c u = Some g \<Longrightarrow> registered c' u = Some g" for u g
    using registered_grows [OF assms(1)] .
  show ?thesis
    using assms(2) pk reg by (auto simp: cmpOf_def split: gotype.splits if_splits)
qed

lemma registered_getName: "registered (snd (getName t c)) t = Some (ByFunc (fst (getName t c)))"
  by (simp add: registered_def GetFuncName_name)

lemma getName_pair: "getName t c = (f, c1) \<Longrightarrow> f = fst (getName t c) \<and> c1 = snd (getName t c)"
  by simp

lemma field_Inr:
  assumes "field a b t c = (Inr s, c1)"
  shows "\<exists>fc. cmpOf c1 t = Some fc \<and> s = cmpText fc a b"
proof (cases t)
  case (Pointer ref)
  with assms registered_getName [of t c] show ?thesis
    by (cases ref) (auto simp: field_def cmpOf_def split: prod.splits dest!: getName_pair)
next
  case (Basic k)
  with assms registered_getName [of t c] show ?thesis
    by (auto simp: field_def cmpOf_def split: prod.splits if_splits dest!: getName_pair)
next
  case (Slice el)
  with assms registered_getName [of t c] show ?thesis
    by (auto simp: field_def cmpOf_def split: prod.splits if_splits dest!: getName_pair)
next
  case (Array n el)
  with assms registered_getName [of t c] show ?thesis
    by (auto simp: field_def cmpOf_def split: prod.splits dest!: getName_pair)
next
  case (Map k el)
  with assms registered_getName [of t c] show ?thesis
    by (auto simp: field_def cmpOf_def split: prod.splits dest!: getName_pair)
qed (use assms in \<open>auto simp: field_def cmpOf_def\<close>)

lemma field_state:
  assumes "field a b t c = (r, c1)"
  shows "printer c1 = printer c \<and> sortedKeys c1 = sortedKeys c \<and> grows c c1"
proof -
  have "c1 = c \<or> c1 = snd (getName t c)"
    using assms
    by (cases t) (auto simp: field_def split: gotype.splits if_splits prod.splits)
  then show ?thesis by auto
qed

lemma field_Inl:
  assumes "field a b t c = (Inl e, c1)"
  shows "e = UnsupportedFieldType t \<and> unsupportedFieldKind t \<and> c1 = c"
  using assms
  by (cases t) (auto simp: field_def split: gotype.splits if_splits prod.splits)



subsection \<open>genFuncFor\<close>

lemma genFuncFor_opened:
  "genFuncFor D typ c =
     (case Underlying D typ of
        Pointer ref \<Rightarrow>
          closeFunc (emit [P (''return '' @ fst (getName ref (emit nilLines (opened typ c))) @ ''(*this, *that)'')]
            (snd (getName ref (emit nilLines (opened typ c)))))
      | Basic k \<Rightarrow> closeFunc (emit (basicLines (stringsPkg c) k) (opened typ c))
      | Struct flds \<Rightarrow>
          (case genFields flds (opened typ c) of
             (Some err, c5) \<Rightarrow> (Some err, c5)
           | (None, c5) \<Rightarrow> closeFunc (emit [P ''return 0''] c5))
      | Slice el \<Rightarrow> genElems el (emit (nilLines @ lenLines) (opened typ c))
      | Array n el \<Rightarrow> genElems el (emit lenLines (opened typ c))
      | Map key el \<Rightarrow> genKeys typ key el (emit (nilLines @ lenLines) (opened typ c))
      | _ \<Rightarrow> (Some (UnsupportedCompareType typ), opened typ c))"
  by (simp add: genFuncFor_def opened_def Let_def split: gotype.splits)

lemma opened_simps [simp]:
  "TypesMap (opened typ c) = snd (GetFuncName typ (Generating typ (TypesMap c)))"
  "qual (opened typ c) = qual c"
  "bytesPkg (opened typ c) = bytesPkg c"
  "stringsPkg (opened typ c) = stringsPkg c"
  "sortedKeys (opened typ c) = sortedKeys c"
  by (simp_all add: opened_def Let_def)

lemma opened_printer:
  "printer (opened typ c) =
     (printer c)\<lparr>lines := lines (printer c) @
         [(indent (printer c), []),
          (indent (printer c), ''func '' @ fst (GetFuncName typ (Generating typ (TypesMap c)))
             @ ''(this, that '' @ qual c typ @ '') int {'')],
       indent := Suc (indent (printer c))\<rparr>"
  by (simp add: opened_def Let_def)

lemma opened_name:
  "nameOf (entries (TypesMap (opened typ c))) typ
     = Some (fst (GetFuncName typ (Generating typ (TypesMap c))))"
  by (simp add: GetFuncName_name)

lemma Generating_keeps [simp]:
  "nameOf (entries (Generating t tm)) t' = nameOf (entries tm) t'"
  by (simp add: Generating_def)

lemma grows_opened [simp]: "grows c (opened typ c)"
  by (simp add: grows_def GetFuncName_keeps)

lemma grows_name: "grows c c' \<Longrightarrow> nameOf (entries (TypesMap c)) t = Some n
    \<Longrightarrow> nameOf (entries (TypesMap c')) t = Some n"
  by (simp add: grows_def)

lemma gen_pointer:
  assumes "Underlying D typ = Pointer ref"
  shows "\<exists>c' name f. genFuncFor D typ c = (None, c')
      \<and> nameOf (entries (TypesMap c')) typ = Some name
      \<and> nameOf (entries (TypesMap c')) ref = Some f
      \<and> printer c' = (printer c)\<lparr>lines := lines (printer c) @
            showFunc (indent (printer c)) name (qual c typ) (ptrBody f)\<rparr>"
  using assms
  by (simp add: genFuncFor_opened closeFunc_def opened_printer pemit_nilLines showFunc_def
      ptrBody_def showBlock_append GetFuncName_name GetFuncName_keeps)


lemma closeFunc_simps [simp]:
  "fst (closeFunc c) = None"
  "TypesMap (snd (closeFunc c)) = TypesMap c"
  "printer (snd (closeFunc c)) = pemit [Out, P ''}''] (printer c)"
  "sortedKeys (snd (closeFunc c)) = sortedKeys c"
  by (simp_all add: closeFunc_def)

lemma cmpOf_closeFunc [simp]: "cmpOf (snd (closeFunc c)) t = cmpOf c t"
  by (simp add: closeFunc_def)

lemma grows_closeFunc [simp]: "grows c (snd (closeFunc c'))  = grows c c'"
  by (simp add: closeFunc_def grows_def)

lemma genElems_Some:
  assumes "genElems el c = (Some e, c')"
  shows "e = UnsupportedFieldType el \<and> unsupportedFieldKind el"
  using assms
  by (auto simp: genElems_def Let_def closeFunc_def split: prod.splits sum.splits dest: field_Inl)

lemma genElems_None:
  assumes "genElems el c = (None, c')"
  shows "\<exists>fc. cmpOf c' el = Some fc \<and> grows c c'
      \<and> printer c' = (printer c)\<lparr>lines := lines (printer c) @
            showBlock (indent (printer c)) (elemLoop fc) @ [(indent (printer c) - 1, ''}'')],
          indent := indent (printer c) - 1\<rparr>"
proof -
  let ?c1 = "emit [P ''for i := 0; i < len(this); i++ {'', In] c"
  obtain r c2 where f: "field ''this[i]'' ''that[i]'' el ?c1 = (r, c2)"
    by (cases "field ''this[i]'' ''that[i]'' el ?c1") auto
  with assms obtain s where r: "r = Inr s"
    by (cases r) (auto simp: genElems_def Let_def)
  from f r field_Inr obtain fc where fc: "cmpOf c2 el = Some fc"
      "s = cmpText fc ''this[i]'' ''that[i]''"
    by blast
  have s: "s = showExpr (cmpExpr fc (Index vThis (Var ''i'')) (Index vThat (Var ''i'')))"
    using fc(2) by (simp add: cmpText_showExpr [symmetric])
  from field_state [OF f] have st: "printer c2 = printer ?c1" "grows ?c1 c2"
    by simp_all
  from assms f r have c': "c' = snd (closeFunc (emit (ifcLines s @ [Out, P ''}'', P ''return 0'']) c2))"
    by (simp add: genElems_def Let_def)
  have g: "grows c c'"
    unfolding c' using st(2) by simp
  have p: "printer c' = (printer c)\<lparr>lines := lines (printer c) @
            showBlock (indent (printer c)) (elemLoop fc) @ [(indent (printer c) - 1, ''}'')],
          indent := indent (printer c) - 1\<rparr>"
    unfolding c' s
    by (simp add: st(1) pemit_append pemit_ifcLines elemLoop_def)
  from fc(1) have "cmpOf c' el = Some fc"
    unfolding c' by simp
  with g p show ?thesis by blast
qed

lemma gen_slice:
  assumes "Underlying D typ = Slice el" "genFuncFor D typ c = (None, c')"
  shows "\<exists>name fc. nameOf (entries (TypesMap c')) typ = Some name \<and> cmpOf c' el = Some fc
      \<and> printer c' = (printer c)\<lparr>lines := lines (printer c) @
            showFunc (indent (printer c)) name (qual c typ) (sliceBody fc)\<rparr>"
proof -
  let ?c4 = "emit (nilLines @ lenLines) (opened typ c)"
  from assms have "genElems el ?c4 = (None, c')"
    by (simp add: genFuncFor_opened)
  from genElems_None [OF this] obtain fc where fc: "cmpOf c' el = Some fc" "grows ?c4 c'"
      "printer c' = (printer ?c4)\<lparr>lines := lines (printer ?c4) @
            showBlock (indent (printer ?c4)) (elemLoop fc) @ [(indent (printer ?c4) - 1, ''}'')],
          indent := indent (printer ?c4) - 1\<rparr>"
    by blast
  have "nameOf (entries (TypesMap ?c4)) typ = Some (fst (GetFuncName typ (Generating typ (TypesMap c))))"
    by (simp add: GetFuncName_name)
  from grows_name [OF fc(2) this]
  have n: "nameOf (entries (TypesMap c')) typ = Some (fst (GetFuncName typ (Generating typ (TypesMap c))))" .
  have "printer c' = (printer c)\<lparr>lines := lines (printer c) @
            showFunc (indent (printer c)) (fst (GetFuncName typ (Generating typ (TypesMap c))))
              (qual c typ) (sliceBody fc)\<rparr>"
    unfolding fc(3)
    by (simp add: opened_printer pemit_append pemit_nilLines pemit_lenLines showFunc_def
        sliceBody_def showBlock_append)
  with n fc(1) show ?thesis by blast
qed

lemma gen_array:
  assumes "Underlying D typ = Array n el" "genFuncFor D typ c = (None, c')"
  shows "\<exists>name fc. nameOf (entries (TypesMap c')) typ = Some name \<and> cmpOf c' el = Some fc
      \<and> printer c' = (printer c)\<lparr>lines := lines (printer c) @
            showFunc (indent (printer c)) name (qual c typ) (arrayBody fc)\<rparr>"
proof -
  let ?c4 = "emit lenLines (opened typ c)"
  from assms have "genElems el ?c4 = (None, c')"
    by (simp add: genFuncFor_opened)
  from genElems_None [OF this] obtain fc where fc: "cmpOf c' el = Some fc" "grows ?c4 c'"
      "printer c' = (printer ?c4)\<lparr>lines := lines (printer ?c4) @
            showBlock (indent (printer ?c4)) (elemLoop fc) @ [(indent (printer ?c4) - 1, ''}'')],
          indent := indent (printer ?c4) - 1\<rparr>"
    by blast
  have "nameOf (entries (TypesMap ?c4)) typ = Some (fst (GetFuncName typ (Generating typ (TypesMap c))))"
    by (simp add: GetFuncName_name)
  from grows_name [OF fc(2) this]
  have n: "nameOf (entries (TypesMap c')) typ = Some (fst (GetFuncName typ (Generating typ (TypesMap c))))" .
  have "printer c' = (printer c)\<lparr>lines := lines (printer c) @
            showFunc (indent (printer c)) (fst (GetFuncName typ (Generating typ (TypesMap c))))
              (qual c typ) (arrayBody fc)\<rparr>"
    unfolding fc(3)
    by (simp add: opened_printer pemit_append pemit_lenLines showFunc_def
        arrayBody_def showBlock_append)
  with n fc(1) show ?thesis by blast
qed


lemma fieldCmps_grows:
  "grows c c' \<Longrightarrow> fieldCmps c flds = Some cmps \<Longrightarrow> fieldCmps c' flds = Some cmps"
proof (induction flds arbitrary: cmps)
  case Nil
  then show ?case by simp
next
  case (Cons a flds)
  obtain n t where a: "a = (n, t)" by (cases a)
  from Cons.prems(2) a obtain fc rest where fc: "cmpOf c t = Some fc"
      "fieldCmps c flds = Some rest" "cmps = (n, fc) # rest"
    by (auto split: option.splits)
  from cmpOf_grows [OF Cons.prems(1) fc(1)] Cons.IH [OF Cons.prems(1) fc(2)] fc(3) a
  show ?case by simp
qed

lemma fieldCmps_emit [simp]: "fieldCmps (emit cs c) flds = fieldCmps c flds"
  by (induction flds) (auto split: option.splits)

lemma fieldCmps_closeFunc [simp]: "fieldCmps (snd (closeFunc c)) flds = fieldCmps c flds"
  by (induction flds) (auto split: option.splits)


lemma genFields_None:
  "genFields flds c = (None, c') \<Longrightarrow>
     \<exists>cmps. fieldCmps c' flds = Some cmps \<and> grows c c'
       \<and> printer c' = (printer c)\<lparr>lines := lines (printer c) @
             showBlock (indent (printer c)) (map fieldStmt cmps)\<rparr>"
proof (induction flds arbitrary: c)
  case Nil
  then show ?case by simp
next
  case (Cons a flds)
  obtain n t where a: "a = (n, t)" by (cases a)
  obtain r c1 where f: "field (''this.'' @ n) (''that.'' @ n) t c = (r, c1)"
    by (cases "field (''this.'' @ n) (''that.'' @ n) t c") auto
  with Cons.prems a obtain s where r: "r = Inr s"
    by (cases r) auto
  from f r field_Inr obtain fc where fc: "cmpOf c1 t = Some fc"
      "s = cmpText fc (''this.'' @ n) (''that.'' @ n)"
    by blast
  have s: "s = showExpr (cmpExpr fc (Sel vThis n) (Sel vThat n))"
    using fc(2) by (simp add: cmpText_showExpr [symmetric])
  from field_state [OF f] have st: "printer c1 = printer c" "grows c c1"
    by simp_all
  let ?c2 = "emit (ifcLines s) c1"
  from Cons.prems a f r have "genFields flds ?c2 = (None, c')"
    by simp
  from Cons.IH [OF this] obtain cmps where ih: "fieldCmps c' flds = Some cmps" "grows ?c2 c'"
      "printer c' = (printer ?c2)\<lparr>lines := lines (printer ?c2) @
             showBlock (indent (printer ?c2)) (map fieldStmt cmps)\<rparr>"
    by blast
  from ih(2) have g1: "grows c1 c'" by simp
  from cmpOf_grows [OF g1 fc(1)] ih(1) a
  have one: "fieldCmps c' (a # flds) = Some ((n, fc) # cmps)"
    by simp
  have two: "grows c c'"
    using st(2) g1 by (rule grows_trans)
  have three: "printer c' = (printer c)\<lparr>lines := lines (printer c) @
             showBlock (indent (printer c)) (map fieldStmt ((n, fc) # cmps))\<rparr>"
    unfolding ih(3) s
    by (simp add: st(1) pemit_ifcLines fieldStmt_def)
  from one two three show ?case by blast
qed

lemma gen_struct:
  assumes "Underlying D typ = Struct flds" "genFuncFor D typ c = (None, c')"
  shows "\<exists>name cmps. nameOf (entries (TypesMap c')) typ = Some name
      \<and> fieldCmps c' flds = Some cmps
      \<and> printer c' = (printer c)\<lparr>lines := lines (printer c) @
            showFunc (indent (printer c)) name (qual c typ) (structBody cmps)\<rparr>"
proof -
  let ?c4 = "opened typ c"
  obtain r c5 where gf: "genFields flds ?c4 = (r, c5)"
    by (cases "genFields flds ?c4") auto
  with assms have r: "r = None" and c': "c' = snd (closeFunc (emit [P ''return 0''] c5))"
    by (auto simp: genFuncFor_opened split: option.splits)
  from genFields_None [OF gf [unfolded r]] obtain cmps where ih:
      "fieldCmps c5 flds = Some cmps" "grows ?c4 c5"
      "printer c5 = (printer ?c4)\<lparr>lines := lines (printer ?c4) @
             showBlock (indent (printer ?c4)) (map fieldStmt cmps)\<rparr>"
    by blast
  have "nameOf (entries (TypesMap ?c4)) typ = Some (fst (GetFuncName typ (Generating typ (TypesMap c))))"
    by (simp add: GetFuncName_name)
  from grows_name [OF ih(2) this]
  have n: "nameOf (entries (TypesMap c')) typ = Some (fst (GetFuncName typ (Generating typ (TypesMap c))))"
    unfolding c' by simp
  have f: "fieldCmps c' flds = Some cmps"
    unfolding c' using ih(1) by simp
  have "printer c' = (printer c)\<lparr>lines := lines (printer c) @
            showFunc (indent (printer c)) (fst (GetFuncName typ (Generating typ (TypesMap c))))
              (qual c typ) (structBody cmps)\<rparr>"
    unfolding c'
    by (simp add: ih(3) opened_printer showFunc_def structBody_def showBlock_append)
  with n f show ?thesis by blast
qed


lemma grows_sortedKeys_update [simp]:
  "grows c (c'\<lparr>sortedKeys := x\<rparr>) = grows c c'"
  "grows (c\<lparr>sortedKeys := x\<rparr>) c' = grows c c'"
  by (simp_all add: grows_def)

lemma genKeys_Some:
  assumes "genKeys typ key el c = (Some e, c')"
  shows "(sortedKeys c = None \<and> e = NilSortedKeys)
       \<or> (e = UnsupportedFieldType el \<and> unsupportedFieldKind el)
       \<or> (e = UnsupportedFieldType key \<and> unsupportedFieldKind key)"
  using assms
  by (auto simp: genKeys_def Let_def closeFunc_def split: option.splits prod.splits sum.splits
      dest: field_Inl)

lemma genKeys_None:
  assumes "genKeys typ key el c = (None, c')"
  shows "\<exists>k fcV fcK. keysName c' typ = Some k \<and> cmpOf c' el = Some fcV \<and> cmpOf c' key = Some fcK
      \<and> grows c c'
      \<and> printer c' = (printer c)\<lparr>lines := lines (printer c) @
            showBlock (indent (printer c)) (keyWalk k k fcV fcK) @ [(indent (printer c) - 1, ''}'')],
          indent := indent (printer c) - 1\<rparr>"
proof -
  from assms obtain sk where sk: "sortedKeys c = Some sk"
    by (cases "sortedKeys c") (auto simp: genKeys_def)
  let ?k = "fst (GetFuncName typ sk)"
  let ?sk1 = "snd (GetFuncName typ sk)"
  let ?c1 = "emit [P (''thiskeys := '' @ ?k @ ''(this)''),
                   P (''thatkeys := '' @ ?k @ ''(that)''),
                   P ''for i, thiskey := range thiskeys {'', In,
                   P ''thatkey := thatkeys[i]'',
                   P ''if thiskey == thatkey {'', In] (c\<lparr>sortedKeys := Some ?sk1\<rparr>)"
  obtain r c2 where f1: "field ''this[thiskey]'' ''that[thatkey]'' el ?c1 = (r, c2)"
    by (cases "field ''this[thiskey]'' ''that[thatkey]'' el ?c1") auto
  with assms sk obtain s where r: "r = Inr s"
    by (cases r) (auto simp: genKeys_def Let_def GetFuncName_again)
  let ?c3 = "emit (ifcLines s @ [Out, P ''} else {'', In]) c2"
  obtain r2 c4 where f2: "field ''thiskey'' ''thatkey'' key ?c3 = (r2, c4)"
    by (cases "field ''thiskey'' ''thatkey'' key ?c3") auto
  with assms sk f1 r obtain s2 where r2: "r2 = Inr s2"
    by (cases r2) (auto simp: genKeys_def Let_def GetFuncName_again)
  from assms sk f1 r f2 r2
  have c': "c' = snd (closeFunc (emit (ifcLines s2 @ [Out, P ''}'', Out, P ''}'', P ''return 0'']) c4))"
    by (simp add: genKeys_def Let_def GetFuncName_again)
  from f1 r field_Inr obtain fcV where fcV: "cmpOf c2 el = Some fcV"
      "s = cmpText fcV ''this[thiskey]'' ''that[thatkey]''"
    by blast
  from f2 r2 field_Inr obtain fcK where fcK: "cmpOf c4 key = Some fcK"
      "s2 = cmpText fcK ''thiskey'' ''thatkey''"
    by blast
  have s: "s = showExpr (cmpExpr fcV (Index vThis (Var ''thiskey'')) (Index vThat (Var ''thatkey'')))"
    using fcV(2) by (simp add: cmpText_showExpr [symmetric])
  have s2: "s2 = showExpr (cmpExpr fcK (Var ''thiskey'') (Var ''thatkey''))"
    using fcK(2) by (simp add: cmpText_showExpr [symmetric])
  from field_state [OF f1] have st1: "printer c2 = printer ?c1" "sortedKeys c2 = Some ?sk1"
      "grows c c2"
    by simp_all
  from field_state [OF f2] have st2: "printer c4 = printer ?c3" "sortedKeys c4 = sortedKeys c2"
      "grows c2 c4"
    by simp_all
  have k: "keysName c' typ = Some ?k"
    unfolding c' by (simp add: keysName_def st2(2) st1(2) GetFuncName_name)
  from cmpOf_grows [OF st2(3) fcV(1)] have v: "cmpOf c' el = Some fcV"
    unfolding c' by simp
  from fcK(1) have kk: "cmpOf c' key = Some fcK"
    unfolding c' by simp
  have g: "grows c c'"
    unfolding c' using grows_trans [OF st1(3) st2(3)] by simp
  have p: "printer c' = (printer c)\<lparr>lines := lines (printer c) @
            showBlock (indent (printer c)) (keyWalk ?k ?k fcV fcK) @ [(indent (printer c) - 1, ''}'')],
          indent := indent (printer c) - 1\<rparr>"
  proof -
    have p3: "printer ?c3 = (printer c)\<lparr>lines := lines (printer c) @
        [(indent (printer c), ''thiskeys := '' @ ?k @ ''(this)''),
         (indent (printer c), ''thatkeys := '' @ ?k @ ''(that)''),
         (indent (printer c), ''for i, thiskey := range thiskeys {''),
         (Suc (indent (printer c)), ''thatkey := thatkeys[i]''),
         (Suc (indent (printer c)), ''if thiskey == thatkey {'')]
        @ showStmt (Suc (Suc (indent (printer c))))
            (ifc (cmpExpr fcV (Index vThis (Var ''thiskey'')) (Index vThat (Var ''thatkey''))))
        @ [(Suc (indent (printer c)), ''} else {'')],
        indent := Suc (Suc (indent (printer c)))\<rparr>"
      unfolding s by (simp add: st1(1) pemit_append pemit_ifcLines)
    have p4: "printer c4 = (printer c)\<lparr>lines := lines (printer c) @
        [(indent (printer c), ''thiskeys := '' @ ?k @ ''(this)''),
         (indent (printer c), ''thatkeys := '' @ ?k @ ''(that)''),
         (indent (printer c), ''for i, thiskey := range thiskeys {''),
         (Suc (indent (printer c)), ''thatkey := thatkeys[i]''),
         (Suc (indent (printer c)), ''if thiskey == thatkey {'')]
        @ showStmt (Suc (Suc (indent (printer c))))
            (ifc (cmpExpr fcV (Index vThis (Var ''thiskey'')) (Index vThat (Var ''thatkey''))))
        @ [(Suc (indent (printer c)), ''} else {'')],
        indent := Suc (Suc (indent (printer c)))\<rparr>"
      by (simp only: st2(1) p3)
    show ?thesis
      unfolding c' s2
      by (simp add: p4 pemit_append pemit_ifcLines keyWalk_def)
  qed
  from k v kk g p show ?thesis by blast
qed

lemma gen_map:
  assumes "Underlying D typ = Map key el" "genFuncFor D typ c = (None, c')"
  shows "\<exists>name k fcV fcK. nameOf (entries (TypesMap c')) typ = Some name
      \<and> keysName c' typ = Some k \<and> cmpOf c' el = Some fcV \<and> cmpOf c' key = Some fcK
      \<and> printer c' = (printer c)\<lparr>lines := lines (printer c) @
            showFunc (indent (printer c)) name (qual c typ) (mapBody k k fcV fcK)\<rparr>"
proof -
  let ?c4 = "emit (nilLines @ lenLines) (opened typ c)"
  from assms have "genKeys typ key el ?c4 = (None, c')"
    by (simp add: genFuncFor_opened)
  from genKeys_None [OF this] obtain k fcV fcK where fc: "keysName c' typ = Some k"
      "cmpOf c' el = Some fcV" "cmpOf c' key = Some fcK" "grows ?c4 c'"
      "printer c' = (printer ?c4)\<lparr>lines := lines (printer ?c4) @
            showBlock (indent (printer ?c4)) (keyWalk k k fcV fcK) @ [(indent (printer ?c4) - 1, ''}'')],
          indent := indent (printer ?c4) - 1\<rparr>"
    by blast
  have "nameOf (entries (TypesMap ?c4)) typ = Some (fst (GetFuncName typ (Generating typ (TypesMap c))))"
    by (simp add: GetFuncName_name)
  from grows_name [OF fc(4) this]
  have n: "nameOf (entries (TypesMap c')) typ = Some (fst (GetFuncName typ (Generating typ (TypesMap c))))" .
  have "printer c' = (printer c)\<lparr>lines := lines (printer c) @
            showFunc (indent (printer c)) (fst (GetFuncName typ (Generating typ (TypesMap c))))
              (qual c typ) (mapBody k k fcV fcK)\<rparr>"
    unfolding fc(5)
    by (simp add: opened_printer pemit_append pemit_nilLines pemit_lenLines showFunc_def
        mapBody_def showBlock_append)
  with n fc(1,2,3) show ?thesis by blast
qed

lemma pemit_basicLines:
  "pemit (basicLines s k) p = p\<lparr>lines := lines p @ showBlock (indent p) (basicBody s k)\<rparr>"
  by (simp add: basicLines_def basicBody_def)

lemma gen_basic:
  assumes "Underlying D typ = Basic k"
  shows "\<exists>c' name. genFuncFor D typ c = (None, c')
      \<and> nameOf (entries (TypesMap c')) typ = Some name
      \<and> printer c' = (printer c)\<lparr>lines := lines (printer c) @
            showFunc (indent (printer c)) name (qual c typ) (basicBody (stringsPkg c) k)\<rparr>"
  using assms
  by (simp add: genFuncFor_opened closeFunc_def opened_printer pemit_basicLines showFunc_def
      GetFuncName_name)

section \<open>What the printed programs compute\<close>

lemma asInt_simps [simp]:
  "asInt None = None" "asInt (Some (VInt n)) = Some n"
  by (simp_all add: asInt_def)

lemma eval_cmpExpr:
  "asInt (eval F \<rho> (cmpExpr fc ea eb)) =
     (case eval F \<rho> ea of
        None \<Rightarrow> None
      | Some va \<Rightarrow> (case eval F \<rho> eb of None \<Rightarrow> None | Some vb \<Rightarrow> applyCmp F fc va vb))"
  by (cases fc) (auto split: option.splits)

lemma exec_ifc:
  "exec F \<rho> (ifc e) =
     (case asInt (eval F \<rho> e) of
        None \<Rightarrow> Stuck
      | Some n \<Rightarrow> if n \<noteq> 0 then Ret (VInt n) else Normal \<rho>)"
proof (cases "eval F \<rho> e")
  case None
  then show ?thesis by (simp add: ifc_def)
next
  case (Some v)
  then show ?thesis
    by (cases v) (auto simp: ifc_def asInt_def)
qed

lemma execs_append:
  "execs F \<rho> (xs @ ys) = (case execs F \<rho> xs of Normal \<rho>' \<Rightarrow> execs F \<rho>' ys | r \<Rightarrow> r)"
  by (induction xs arbitrary: \<rho>) (auto split: outcome.splits)

lemma execs_ifcs:
  "execs F \<rho> (map ifc es @ rest) =
     (case firstNonZero (map (\<lambda>e. asInt (eval F \<rho> e)) es) of
        None \<Rightarrow> Stuck
      | Some n \<Rightarrow> if n \<noteq> 0 then Ret (VInt n) else execs F \<rho> rest)"
proof (induction es)
  case Nil
  then show ?case by simp
next
  case (Cons e es)
  show ?case
  proof (cases "asInt (eval F \<rho> e)")
    case None
    then show ?thesis by (simp add: exec_ifc)
  next
    case (Some n)
    with Cons show ?thesis by (simp add: exec_ifc)
  qed
qed


subsection \<open>nil and length\<close>




subsection \<open>pointers\<close>





subsection \<open>slices and arrays\<close>






subsection \<open>structs\<close>

lemma run_structBody:
  "run F (structBody cmps) (VStruct fa) (VStruct fb) = firstNonZero (map (compareField F fa fb) cmps)"
proof -
  let ?\<rho> = "[(''this'', VStruct fa), (''that'', VStruct fb)]"
  let ?es = "map (\<lambda>nf. cmpExpr (snd nf) (Sel vThis (fst nf)) (Sel vThat (fst nf))) cmps"
  have e: "asInt (eval F ?\<rho> (cmpExpr (snd nf) (Sel vThis (fst nf)) (Sel vThat (fst nf))))
      = compareField F fa fb nf" for nf
    by (simp add: eval_cmpExpr compareField_def split: option.splits)
  have m: "map fieldStmt cmps = map ifc ?es"
    by (simp add: fieldStmt_def comp_def)
  have r: "map (\<lambda>e. asInt (eval F ?\<rho> e)) ?es = map (compareField F fa fb) cmps"
    by (simp add: e comp_def del: eval.simps)
  have "execs F ?\<rho> (structBody cmps) = execs F ?\<rho> (map ifc ?es @ [Return (IntLit 0)])"
    by (simp only: structBody_def m)
  also have "\<dots> =
     (case firstNonZero (map (\<lambda>e. asInt (eval F ?\<rho> e)) ?es) of
        None \<Rightarrow> Stuck
      | Some n \<Rightarrow> if n \<noteq> 0 then Ret (VInt n) else execs F ?\<rho> [Return (IntLit 0)])"
    by (rule execs_ifcs)
  finally have "execs F ?\<rho> (structBody cmps) =
     (case firstNonZero (map (compareField F fa fb) cmps) of
        None \<Rightarrow> Stuck
      | Some n \<Rightarrow> if n \<noteq> 0 then Ret (VInt n) else execs F ?\<rho> [Return (IntLit 0)])"
    by (simp only: r)
  then show ?thesis
    by (auto simp: run_def split: option.splits)
qed


subsection \<open>maps\<close>







subsection \<open>sorted keys\<close>

lemma set_insertKey [simp]: "set (insertKey le k xs) = insert k (set xs)"
  by (induction xs) auto

lemma set_sortKeys [simp]: "set (sortKeys le ks) = set ks"
  by (induction ks) auto

lemma distinct_insertKey [simp]: "distinct (insertKey le k xs) = (k \<notin> set xs \<and> distinct xs)"
  by (induction xs) auto

lemma distinct_sortKeys [simp]: "distinct (sortKeys le ks) = distinct ks"
  by (induction ks) auto









section \<open>The generated comparators\<close>

lemma printer_lines:
  "printer c' = (printer c)\<lparr>lines := lines (printer c) @ ls\<rparr>
   \<Longrightarrow> lines (printer c') = lines (printer c) @ ls \<and> indent (printer c') = indent (printer c)"
  by simp

lemma fieldCmps_names: "fieldCmps c flds = Some cmps \<Longrightarrow> map fst cmps = map fst flds"
  by (induction flds arbitrary: cmps) (auto split: option.splits)

text \<open>
  Claim C3. For a struct type whose function is generated without error, the emitted
  lines are the print of a function that holds one comparison per field, in declaration
  order, each the one \<^verbatim>\<open>field\<close> decides for the field's type; called on two struct
  values it returns the first field comparison that is not zero, and 0 when all are
  zero (and does not return when a field comparison before that does not).
\<close>

theorem struct_compare:
  assumes "Underlying D typ = Struct flds" and "genFuncFor D typ c = (None, c')"
  shows "\<exists>name cmps.
      nameOf (entries (TypesMap c')) typ = Some name
    \<and> fieldCmps c' flds = Some cmps \<and> map fst cmps = map fst flds
    \<and> lines (printer c') = lines (printer c)
          @ showFunc (indent (printer c)) name (qual c typ) (structBody cmps)
    \<and> (\<forall>F fa fb. run F (structBody cmps) (VStruct fa) (VStruct fb)
          = firstNonZero (map (compareField F fa fb) cmps))"
proof -
  from gen_struct [OF assms] obtain name cmps where
      g: "nameOf (entries (TypesMap c')) typ = Some name" "fieldCmps c' flds = Some cmps"
      "printer c' = (printer c)\<lparr>lines := lines (printer c) @
            showFunc (indent (printer c)) name (qual c typ) (structBody cmps)\<rparr>"
    by blast
  from printer_lines [OF g(3)] g(1,2) fieldCmps_names [OF g(2)] run_structBody
  show ?thesis by blast
qed

text \<open>
  The first scenario of the spec: \<^verbatim>\<open>{A int, B string}\<close> with \<^verbatim>\<open>{1,"x"}\<close> and
  \<^verbatim>\<open>{1,"y"}\<close> gives a negative result.
\<close>

lemma ex_struct_gen:
  "fst (genFuncFor exDecls (Named ''T'') (exPlugin [(''deriveCompare'', Named ''T'')])) = None"
  by (simp add: genFuncFor_def Let_def exDecls_def exPlugin_def exSite_def newTypesMap_def
      HasPrefix_def SetFuncName_def Generating_def getName_def GetFuncName_def newName_def
      emit_def field_def closeFunc_def callStr_def NewImport_def newPrinter_def
      del: pemit.simps)


lemmas scenario_defs = genFuncFor_def Let_def exDecls_def exPlugin_def exSite_def newTypesMap_def
      HasPrefix_def SetFuncName_def Generating_def getName_def GetFuncName_def newName_def
      emit_def field_def closeFunc_def callStr_def NewImport_def newPrinter_def
      genElems_def genKeys_def

lemma ex_struct_state:
  "entries (TypesMap (snd (genFuncFor exDecls (Named ''T'') (exPlugin [(''deriveCompare'', Named ''T'')]))))
     = [(Named ''T'', ''deriveCompare'', StGenerating),
        (Basic IntKind, ''deriveCompare_int'', StRequested)]
   \<and> stringsPkg (snd (genFuncFor exDecls (Named ''T'') (exPlugin [(''deriveCompare'', Named ''T'')]))) = ''strings''"
  by (simp add: scenario_defs del: pemit.simps)

theorem struct_compare_witness:
  "lines (printer (snd (genFuncFor exDecls (Named ''T'') (exPlugin [(''deriveCompare'', Named ''T'')]))))
     = showFunc 0 ''deriveCompare'' ''T''
         (structBody [(''A'', ByFunc ''deriveCompare_int''), (''B'', ByFunc ''strings.Compare'')])
   \<and> run exF (structBody [(''A'', ByFunc ''deriveCompare_int''), (''B'', ByFunc ''strings.Compare'')])
         (VStruct [(''A'', VInt 1), (''B'', VStr ''x'')])
         (VStruct [(''A'', VInt 1), (''B'', VStr ''y'')]) = Some (- 1)"
proof -
  let ?c = "exPlugin [(''deriveCompare'', Named ''T'')]"
  let ?c' = "snd (genFuncFor exDecls (Named ''T'') ?c)"
  let ?flds = "[(''A'', Basic IntKind), (''B'', Basic String)]"
  have u: "Underlying exDecls (Named ''T'') = Struct ?flds"
    by (simp add: exDecls_def)
  have g: "genFuncFor exDecls (Named ''T'') ?c = (None, ?c')"
    using ex_struct_gen by (simp add: prod_eq_iff)
  from struct_compare [OF u g] obtain name cmps where
      h: "nameOf (entries (TypesMap ?c')) (Named ''T'') = Some name"
      "fieldCmps ?c' ?flds = Some cmps"
      "lines (printer ?c') = lines (printer ?c)
          @ showFunc (indent (printer ?c)) name (qual ?c (Named ''T'')) (structBody cmps)"
      "\<And>F fa fb. run F (structBody cmps) (VStruct fa) (VStruct fb)
          = firstNonZero (map (compareField F fa fb) cmps)"
    by blast
  from h(1) have n: "name = ''deriveCompare''"
    by (simp add: ex_struct_state)
  from h(2) have c: "cmps = [(''A'', ByFunc ''deriveCompare_int''), (''B'', ByFunc ''strings.Compare'')]"
    by (simp add: cmpOf_def registered_def ex_struct_state)
  have p: "lines (printer ?c) = []" "indent (printer ?c) = 0" "qual ?c (Named ''T'') = ''T''"
    by (simp_all add: exPlugin_def newPrinter_def)
  have r: "firstNonZero (map (compareField exF [(''A'', VInt 1), (''B'', VStr ''x'')]
      [(''A'', VInt 1), (''B'', VStr ''y'')])
      [(''A'', ByFunc ''deriveCompare_int''), (''B'', ByFunc ''strings.Compare'')]) = Some (- 1)"
    by (simp add: compareField_def run_def basicBody_def)
  from h(3) h(4) [of exF "[(''A'', VInt 1), (''B'', VStr ''x'')]" "[(''A'', VInt 1), (''B'', VStr ''y'')]"] r
  show ?thesis
    unfolding n c p by simp
qed











section \<open>Unsupported kinds\<close>

lemma genFuncFor_unsupported:
  "unsupportedCompareKind (Underlying D typ)
   \<Longrightarrow> genFuncFor D typ c = (Some (UnsupportedCompareType typ), opened typ c)"
  by (cases "Underlying D typ") (simp_all add: genFuncFor_opened)










section \<open>Generation only adds\<close>

lemma stateOf_append:
  "stateOf (es @ [(t, n, s)]) t' =
     (case stateOf es t' of Some x \<Rightarrow> Some x | None \<Rightarrow> if t = t' then Some s else None)"
  by (induction es) auto

lemma stateOf_markGenerating:
  "stateOf (markGenerating t es) t' =
     (if t' = t then map_option (\<lambda>s. if s = StRequested then StGenerating else s) (stateOf es t)
      else stateOf es t')"
  by (induction es) auto

lemma GetFuncName_state:
  "stateOf (entries tm) t' = Some s \<Longrightarrow> stateOf (entries (snd (GetFuncName t tm))) t' = Some s"
  by (simp add: GetFuncName_def stateOf_append split: option.splits)

lemma Generating_state:
  "stateOf (entries tm) t' = Some StGenerating
   \<Longrightarrow> stateOf (entries (Generating t tm)) t' = Some StGenerating"
  by (auto simp: Generating_def stateOf_markGenerating)

lemma pemit_lines: "\<exists>ls. lines (pemit cs p) = lines p @ ls"
proof (induction cs arbitrary: p)
  case Nil
  then show ?case by simp
next
  case (Cons a cs)
  from Cons [of "pstep a p"] obtain ls where "lines (pemit cs (pstep a p)) = lines (pstep a p) @ ls"
    by blast
  then show ?case by (cases a) auto
qed

lemma nameOf_None: "(nameOf es t = None) = (t \<notin> fst ` set es)"
proof (induction es)
  case Nil
  show ?case by simp
next
  case (Cons a es)
  obtain t' n s where "a = (t', n, s)" by (cases a)
  with Cons show ?case by auto
qed

lemma GetFuncName_distinct:
  "distinct (map fst (entries tm)) \<Longrightarrow> distinct (map fst (entries (snd (GetFuncName t tm))))"
  by (auto simp: GetFuncName_def nameOf_None split: option.splits)

lemma map_fst_markGenerating [simp]: "map fst (markGenerating t es) = map fst es"
  by (induction es) auto

lemma Generating_distinct [simp]:
  "distinct (map fst (entries (Generating t tm))) = distinct (map fst (entries tm))"
  by (simp add: Generating_def)

lemma later_refl [simp]: "later c c"
  by (simp add: later_def)

lemma later_trans: "later a b \<Longrightarrow> later b c \<Longrightarrow> later a c"
  unfolding later_def using grows_trans by fastforce

lemma later_emit [simp]: "later c (emit cs c)"
  using pemit_lines [of cs "printer c"] by (simp add: later_def)

lemma later_getName [simp]: "later c (snd (getName t c))"
  by (simp add: later_def GetFuncName_state GetFuncName_distinct)

lemma later_closeFunc [simp]: "later c (snd (closeFunc c))"
  using later_emit [of c "[Out, P ''}'']"] by (simp add: closeFunc_def)

lemma later_sortedKeys [simp]: "later c (c\<lparr>sortedKeys := x\<rparr>)"
  by (simp add: later_def)

lemma later_field: "later c (snd (field a b t c))"
proof -
  have "snd (field a b t c) = c \<or> snd (field a b t c) = snd (getName t c)"
    by (cases t) (auto simp: field_def split: gotype.splits if_splits prod.splits)
  then show ?thesis by auto
qed

lemma later_opened: "later c (opened typ c)"
proof -
  have "grows c (opened typ c)" by simp
  moreover have "\<exists>ls. lines (printer (opened typ c)) = lines (printer c) @ ls"
    by (simp add: opened_printer)
  moreover have "stateOf (entries (TypesMap c)) t = Some StGenerating
      \<Longrightarrow> stateOf (entries (TypesMap (opened typ c))) t = Some StGenerating" for t
    by (simp add: GetFuncName_state Generating_state)
  moreover have "distinct (map fst (entries (TypesMap c)))
      \<Longrightarrow> distinct (map fst (entries (TypesMap (opened typ c))))"
    by (simp add: GetFuncName_distinct)
  ultimately show ?thesis by (simp add: later_def)
qed

lemma later_genFields: "later c (snd (genFields flds c))"
proof (induction flds arbitrary: c)
  case Nil
  then show ?case by simp
next
  case (Cons a flds)
  obtain n t where a: "a = (n, t)" by (cases a)
  obtain r c1 where f: "field (''this.'' @ n) (''that.'' @ n) t c = (r, c1)"
    by (cases "field (''this.'' @ n) (''that.'' @ n) t c") auto
  from later_field [of c "''this.'' @ n" "''that.'' @ n" t] f have l1: "later c c1"
    by simp
  show ?case
  proof (cases r)
    case (Inl e)
    with a f l1 show ?thesis by simp
  next
    case (Inr s)
    have "later c1 (emit (ifcLines s) c1)" by simp
    with l1 have "later c (emit (ifcLines s) c1)" by (rule later_trans)
    from later_trans [OF this Cons [of "emit (ifcLines s) c1"]] a f Inr show ?thesis
      by simp
  qed
qed

lemma later_genElems: "later c (snd (genElems el c))"
proof -
  let ?c1 = "emit [P ''for i := 0; i < len(this); i++ {'', In] c"
  obtain r c2 where f: "field ''this[i]'' ''that[i]'' el ?c1 = (r, c2)"
    by (cases "field ''this[i]'' ''that[i]'' el ?c1") auto
  from later_field [of ?c1 "''this[i]''" "''that[i]''" el] f have "later ?c1 c2"
    by simp
  with later_emit [of c] have l: "later c c2"
    by (rule later_trans)
  show ?thesis
  proof (cases r)
    case (Inl e)
    with f l show ?thesis by (simp add: genElems_def Let_def)
  next
    case (Inr s)
    let ?c3 = "emit (ifcLines s @ [Out, P ''}'', P ''return 0'']) c2"
    have "later c2 (snd (closeFunc ?c3))"
      using later_trans [OF later_emit later_closeFunc] .
    with l have "later c (snd (closeFunc ?c3))" by (rule later_trans)
    with f Inr show ?thesis by (simp add: genElems_def Let_def)
  qed
qed

lemma later_genKeys: "later c (snd (genKeys typ key el c))"
proof (cases "sortedKeys c")
  case None
  then show ?thesis by (simp add: genKeys_def)
next
  case (Some sk)
  let ?k = "fst (GetFuncName typ sk)"
  let ?sk1 = "snd (GetFuncName typ sk)"
  let ?c0 = "c\<lparr>sortedKeys := Some ?sk1\<rparr>"
  let ?c1 = "emit [P (''thiskeys := '' @ ?k @ ''(this)''),
                   P (''thatkeys := '' @ ?k @ ''(that)''),
                   P ''for i, thiskey := range thiskeys {'', In,
                   P ''thatkey := thatkeys[i]'',
                   P ''if thiskey == thatkey {'', In] ?c0"
  have l1: "later c ?c1"
    using later_trans [OF later_sortedKeys later_emit] .
  obtain r c2 where f1: "field ''this[thiskey]'' ''that[thatkey]'' el ?c1 = (r, c2)"
    by (cases "field ''this[thiskey]'' ''that[thatkey]'' el ?c1") auto
  from later_field [of ?c1 "''this[thiskey]''" "''that[thatkey]''" el] f1 have "later ?c1 c2"
    by simp
  with l1 have l2: "later c c2" by (rule later_trans)
  show ?thesis
  proof (cases r)
    case (Inl e)
    with Some f1 l2 show ?thesis
      by (simp add: genKeys_def Let_def GetFuncName_again)
  next
    case (Inr s)
    let ?c3 = "emit (ifcLines s @ [Out, P ''} else {'', In]) c2"
    have l3: "later c ?c3"
      using later_trans [OF l2 later_emit] .
    obtain r2 c4 where f2: "field ''thiskey'' ''thatkey'' key ?c3 = (r2, c4)"
      by (cases "field ''thiskey'' ''thatkey'' key ?c3") auto
    from later_field [of ?c3 "''thiskey''" "''thatkey''" key] f2 have "later ?c3 c4"
      by simp
    with l3 have l4: "later c c4" by (rule later_trans)
    show ?thesis
    proof (cases r2)
      case (Inl e)
      with Some f1 Inr f2 l4 show ?thesis
        by (simp add: genKeys_def Let_def GetFuncName_again)
    next
      case r2: (Inr s2)
      let ?c5 = "emit (ifcLines s2 @ [Out, P ''}'', Out, P ''}'', P ''return 0'']) c4"
      have "later c4 (snd (closeFunc ?c5))"
        using later_trans [OF later_emit later_closeFunc] .
      with l4 have "later c (snd (closeFunc ?c5))" by (rule later_trans)
      with Some f1 Inr f2 r2 show ?thesis
        by (simp add: genKeys_def Let_def GetFuncName_again)
    qed
  qed
qed

lemma later_opened_genFuncFor: "later (opened typ c) (snd (genFuncFor D typ c))"
proof -
  let ?o = "opened typ c"
  have o: "later ?o ?o" by simp
  show ?thesis
  proof (cases "Underlying D typ")
    case (Pointer ref)
    let ?c5 = "emit nilLines ?o"
    let ?c6 = "snd (getName ref ?c5)"
    let ?c7 = "emit [P (''return '' @ fst (getName ref ?c5) @ ''(*this, *that)'')] ?c6"
    have "later ?o ?c5" by simp
    with o have "later ?o ?c5" by (rule later_trans)
    moreover have "later ?c5 ?c6" by simp
    ultimately have "later ?o ?c6" by (rule later_trans)
    moreover have "later ?c6 (snd (closeFunc ?c7))"
      using later_trans [OF later_emit later_closeFunc] .
    ultimately have "later ?o (snd (closeFunc ?c7))" by (rule later_trans)
    with Pointer show ?thesis by (simp add: genFuncFor_opened)
  next
    case (Basic k)
    let ?c5 = "emit (basicLines (stringsPkg c) k) ?o"
    have "later ?o (snd (closeFunc ?c5))"
      using later_trans [OF later_emit later_closeFunc] .
    with o have "later ?o (snd (closeFunc ?c5))" by (rule later_trans)
    with Basic show ?thesis by (simp add: genFuncFor_opened)
  next
    case (Struct flds)
    obtain r c5 where g: "genFields flds ?o = (r, c5)"
      by (cases "genFields flds ?o") auto
    from later_genFields [of ?o flds] g have "later ?o c5" by simp
    with o have l: "later ?o c5" by (rule later_trans)
    show ?thesis
    proof (cases r)
      case None
      have "later c5 (snd (closeFunc (emit [P ''return 0''] c5)))"
        using later_trans [OF later_emit later_closeFunc] .
      with l have "later ?o (snd (closeFunc (emit [P ''return 0''] c5)))" by (rule later_trans)
      with Struct g None show ?thesis by (simp add: genFuncFor_opened)
    next
      case (Some e)
      with Struct g l show ?thesis by (simp add: genFuncFor_opened)
    qed
  next
    case (Slice el)
    have "later ?o (snd (genElems el (emit (nilLines @ lenLines) ?o)))"
      using later_trans [OF later_emit later_genElems] .
    with o have "later ?o (snd (genElems el (emit (nilLines @ lenLines) ?o)))" by (rule later_trans)
    with Slice show ?thesis by (simp add: genFuncFor_opened)
  next
    case (Array n el)
    have "later ?o (snd (genElems el (emit lenLines ?o)))"
      using later_trans [OF later_emit later_genElems] .
    with o have "later ?o (snd (genElems el (emit lenLines ?o)))" by (rule later_trans)
    with Array show ?thesis by (simp add: genFuncFor_opened)
  next
    case (Map key el)
    have "later ?o (snd (genKeys typ key el (emit (nilLines @ lenLines) ?o)))"
      using later_trans [OF later_emit later_genKeys] .
    with o have "later ?o (snd (genKeys typ key el (emit (nilLines @ lenLines) ?o)))"
      by (rule later_trans)
    with Map show ?thesis by (simp add: genFuncFor_opened)
  qed (use o in \<open>simp_all add: genFuncFor_opened\<close>)
qed

lemma later_genFuncFor: "later c (snd (genFuncFor D typ c))"
  using later_opened later_opened_genFuncFor by (rule later_trans)

lemma later_genAll: "later c (snd (genAll D ts c))"
proof (induction ts arbitrary: c)
  case Nil
  then show ?case by simp
next
  case (Cons t ts)
  obtain r c1 where g: "genFuncFor D t c = (r, c1)"
    by (cases "genFuncFor D t c") auto
  from later_genFuncFor [of c D t] g have l: "later c c1" by simp
  show ?case
  proof (cases r)
    case None
    from later_trans [OF l Cons [of c1]] g None show ?thesis by simp
  next
    case (Some e)
    with g l show ?thesis by simp
  qed
qed


lemma later_lines: "later c c' \<Longrightarrow> \<exists>ls. lines (printer c') = lines (printer c) @ ls"
  by (simp add: later_def)

lemma later_qual: "later c c' \<Longrightarrow> qual c' = qual c"
  by (simp add: later_def grows_def)

lemma genFuncFor_header:
  "\<exists>ls. lines (printer (snd (genFuncFor D typ c))) = lines (printer c) @ (indent (printer c), []) # ls"
proof -
  from later_lines [OF later_opened_genFuncFor [of "typ" c D]] obtain ls where
      "lines (printer (snd (genFuncFor D typ c))) = lines (printer (opened typ c)) @ ls"
    by blast
  then show ?thesis by (simp add: opened_printer)
qed

lemma genFuncFor_text:
  assumes "genFuncFor D typ c = (None, c')"
  shows "\<exists>name body. nameOf (entries (TypesMap c')) typ = Some name \<and> bodyOf D c' typ = Some body
      \<and> printer c' = (printer c)\<lparr>lines := lines (printer c) @
            showFunc (indent (printer c)) name (qual c typ) body\<rparr>"
proof (cases "Underlying D typ")
  case (Pointer ref)
  from gen_pointer [OF Pointer, of c] assms show ?thesis
    using Pointer by (auto simp: bodyOf_def)
next
  case (Basic k)
  from gen_basic [OF Basic, of c] assms obtain name where
      g: "nameOf (entries (TypesMap c')) typ = Some name"
      "printer c' = (printer c)\<lparr>lines := lines (printer c) @
            showFunc (indent (printer c)) name (qual c typ) (basicBody (stringsPkg c) k)\<rparr>"
    by auto
  have "stringsPkg c' = stringsPkg c"
    using later_genFuncFor [of c D "typ"] assms by (simp add: later_def grows_def)
  with g Basic show ?thesis by (auto simp: bodyOf_def)
next
  case (Struct flds)
  from gen_struct [OF Struct assms] show ?thesis
    using Struct by (auto simp: bodyOf_def)
next
  case (Slice el)
  from gen_slice [OF Slice assms] show ?thesis
    using Slice by (auto simp: bodyOf_def)
next
  case (Array n el)
  from gen_array [OF Array assms] show ?thesis
    using Array by (auto simp: bodyOf_def)
next
  case (Map key el)
  from gen_map [OF Map assms] show ?thesis
    using Map by (auto simp: bodyOf_def)
qed (use assms genFuncFor_unsupported [of D "typ" c] in simp_all)

lemma genAll_append:
  "genAll D (xs @ ys) c =
     (case genAll D xs c of (Some e, c') \<Rightarrow> (Some e, c') | (None, c') \<Rightarrow> genAll D ys c')"
  by (induction xs arbitrary: c) (auto split: prod.splits option.splits)

lemma genAll_error_lines:
  "fst (genAll D ts c) \<noteq> None
   \<Longrightarrow> \<exists>ls. ls \<noteq> [] \<and> lines (printer (snd (genAll D ts c))) = lines (printer c) @ ls"
proof (induction ts arbitrary: c)
  case Nil
  then show ?case by simp
next
  case (Cons t ts)
  obtain r c1 where g: "genFuncFor D t c = (r, c1)"
    by (cases "genFuncFor D t c") auto
  from genFuncFor_header [of D t c] g obtain l1 where
      l1: "lines (printer c1) = lines (printer c) @ (indent (printer c), []) # l1"
    by auto
  show ?case
  proof (cases r)
    case None
    with Cons.prems g have "fst (genAll D ts c1) \<noteq> None" by simp
    from Cons.IH [OF this] obtain ls where
        "lines (printer (snd (genAll D ts c1))) = lines (printer c1) @ ls"
      by blast
    with l1 g None show ?thesis by simp
  next
    case (Some e)
    with g l1 show ?thesis by simp
  qed
qed

lemma genAll_all_emitted:
  "genAll D ts c = (None, c') \<Longrightarrow> t \<in> set ts
   \<Longrightarrow> \<exists>d name body pre post.
        lines (printer c') = pre @ showFunc d name (qual c t) body @ post"
proof (induction ts arbitrary: c)
  case Nil
  then show ?case by simp
next
  case (Cons a ts)
  obtain r c1 where g: "genFuncFor D a c = (r, c1)"
    by (cases "genFuncFor D a c") auto
  with Cons.prems(1) have r: "r = None" and rest: "genAll D ts c1 = (None, c')"
    by (auto split: option.splits)
  from later_genFuncFor [of c D a] g have q: "qual c1 = qual c"
    by (simp add: later_qual)
  show ?case
  proof (cases "t = a")
    case True
    from genFuncFor_text [OF g [unfolded r]] obtain name body where
        "printer c1 = (printer c)\<lparr>lines := lines (printer c) @
            showFunc (indent (printer c)) name (qual c a) body\<rparr>"
      by blast
    then have l1: "lines (printer c1) = lines (printer c) @
            showFunc (indent (printer c)) name (qual c a) body"
      by simp
    from later_lines [OF later_genAll [of c1 D ts]] rest obtain ls where
        "lines (printer c') = lines (printer c1) @ ls"
      by auto
    with l1 have "lines (printer c') = lines (printer c) @
            showFunc (indent (printer c)) name (qual c a) body @ ls"
      by simp
    with True show ?thesis by blast
  next
    case False
    with Cons.prems(2) have "t \<in> set ts" by simp
    from Cons.IH [OF rest this] q show ?thesis by simp
  qed
qed

text \<open>
  Claim C8, as amended. \<^verbatim>\<open>Generate\<close> returns at the first type whose synthesis fails,
  with that error and in the state that synthesis left, and synthesises no later type.
  The printer only grows. When \<^verbatim>\<open>Generate\<close> returns an error, lines have been printed
  (every synthesis prints its header first) and they stay in the printer: nothing is
  retracted. When it returns no error, the printer holds the text of a whole function
  for every type of the pass.
\<close>

theorem generate_stops_at_error:
  "(genAll D ts1 c = (None, c1) \<and> genFuncFor D t c1 = (Some e, c2) \<longrightarrow>
      genAll D (ts1 @ t # ts2) c = (Some e, c2))
   \<and> (\<exists>ls. lines (printer (snd (Generate D c))) = lines (printer c) @ ls)
   \<and> (fst (Generate D c) \<noteq> None \<longrightarrow>
      (\<exists>ls. ls \<noteq> [] \<and> lines (printer (snd (Generate D c))) = lines (printer c) @ ls))
   \<and> (fst (Generate D c) = None \<longrightarrow>
      (\<forall>u \<in> set (ToGenerate (TypesMap c)). \<exists>d name body pre post.
          lines (printer (snd (Generate D c))) = pre @ showFunc d name (qual c u) body @ post))"
proof (intro conjI impI ballI)
  assume "genAll D ts1 c = (None, c1) \<and> genFuncFor D t c1 = (Some e, c2)"
  then show "genAll D (ts1 @ t # ts2) c = (Some e, c2)"
    by (simp add: genAll_append)
next
  show "\<exists>ls. lines (printer (snd (Generate D c))) = lines (printer c) @ ls"
    unfolding Generate_def by (rule later_lines [OF later_genAll])
next
  assume "fst (Generate D c) \<noteq> None"
  then show "\<exists>ls. ls \<noteq> [] \<and> lines (printer (snd (Generate D c))) = lines (printer c) @ ls"
    unfolding Generate_def by (rule genAll_error_lines)
next
  fix u
  assume n: "fst (Generate D c) = None" and u: "u \<in> set (ToGenerate (TypesMap c))"
  from n have "genAll D (ToGenerate (TypesMap c)) c = (None, snd (Generate D c))"
    by (simp add: Generate_def prod_eq_iff)
  from genAll_all_emitted [OF this u]
  show "\<exists>d name body pre post.
          lines (printer (snd (Generate D c))) = pre @ showFunc d name (qual c u) body @ post" .
qed

text \<open>
  Claim C8 as the spec states it ("either every requested function's text is emitted,
  or none is") fails on a run with two requested types, \<^verbatim>\<open>bool\<close> and a struct with a
  channel field: \<^verbatim>\<open>Generate\<close> returns the error of the channel field, and the printer
  holds the whole function of \<^verbatim>\<open>bool\<close> and the beginning of the function of the struct.
\<close>

lemma ex_partial_state:
  "ToGenerate (TypesMap (exPlugin [(''deriveCompare'', Basic Bool), (''deriveCompareBad'', Named ''Bad'')]))
     = [Basic Bool, Named ''Bad'']"
  by (simp add: ToGenerate_def exPlugin_def exSite_def HasPrefix_def SetFuncName_def newTypesMap_def)

theorem partial_emission_counterexample:
  "fst (Generate exDecls
      (exPlugin [(''deriveCompare'', Basic Bool), (''deriveCompareBad'', Named ''Bad'')]))
     = Some (UnsupportedFieldType (Chan (Basic IntKind)))
   \<and> lines (printer (snd (Generate exDecls
      (exPlugin [(''deriveCompare'', Basic Bool), (''deriveCompareBad'', Named ''Bad'')]))))
     = [(0, []), (0, ''func deriveCompare(this, that bool) int {''),
        (1, ''if this == that {''), (2, ''return 0''), (1, ''}''),
        (1, ''if that {''), (2, ''return -1''), (1, ''}''), (1, ''return 1''),
        (0, ''}''), (0, []),
        (0, ''func deriveCompareBad(this, that Bad) int {''),
        (1, ''if c := deriveCompare_int(this.A, that.A); c != 0 {''),
        (2, ''return c''), (1, ''}'')]"
  by (simp add: Generate_def ToGenerate_def scenario_defs basicLines_def ifcLines_def)

theorem generate_stops_at_error_witness:
  "genAll exDecls [Basic Bool, Named ''Bad'', Basic String]
      (exPlugin [(''deriveCompare'', Basic Bool), (''deriveCompareBad'', Named ''Bad'')])
     = genFuncFor exDecls (Named ''Bad'')
        (snd (genFuncFor exDecls (Basic Bool)
          (exPlugin [(''deriveCompare'', Basic Bool), (''deriveCompareBad'', Named ''Bad'')])))
   \<and> (\<exists>ls. ls \<noteq> [] \<and> lines (printer (snd (Generate exDecls
        (exPlugin [(''deriveCompare'', Basic Bool), (''deriveCompareBad'', Named ''Bad'')]))))
          = lines (printer
              (exPlugin [(''deriveCompare'', Basic Bool), (''deriveCompareBad'', Named ''Bad'')])) @ ls)"
proof -
  let ?c = "exPlugin [(''deriveCompare'', Basic Bool), (''deriveCompareBad'', Named ''Bad'')]"
  let ?c1 = "snd (genFuncFor exDecls (Basic Bool) ?c)"
  let ?c2 = "snd (genFuncFor exDecls (Named ''Bad'') ?c1)"
  let ?e = "UnsupportedFieldType (Chan (Basic IntKind))"
  have a: "genAll exDecls [Basic Bool] ?c = (None, ?c1)"
    by (simp add: scenario_defs basicLines_def split: prod.splits)
  have b: "genFuncFor exDecls (Named ''Bad'') ?c1 = (Some ?e, ?c2)"
    by (simp add: prod_eq_iff scenario_defs basicLines_def ifcLines_def)
  have f: "fst (Generate exDecls ?c) \<noteq> None"
    using partial_emission_counterexample by simp
  from generate_stops_at_error [of exDecls "[Basic Bool]" ?c ?c1 "Named ''Bad''" ?e ?c2 "[Basic String]"]
    a b f
  show ?thesis
    by (simp add: prod_eq_iff)
qed

section \<open>Recursive types: memoization and termination\<close>

subsection \<open>The registry stays within the types reached\<close>

lemma registeredIn_emit [simp]: "registeredIn S (emit cs c) = registeredIn S c"
  by (simp add: registeredIn_def emit_def)

lemma registeredIn_sortedKeys [simp]: "registeredIn S (c\<lparr>sortedKeys := x\<rparr>) = registeredIn S c"
  by (simp add: registeredIn_def)

lemma registeredIn_closeFunc [simp]: "registeredIn S (snd (closeFunc c)) = registeredIn S c"
  by (simp add: closeFunc_def)

lemma registeredIn_getName:
  "registeredIn S c \<Longrightarrow> t \<in> set S \<Longrightarrow> registeredIn S (snd (getName t c))"
  by (auto simp: registeredIn_def getName_def GetFuncName_def split: option.splits prod.splits)

lemma registeredIn_field:
  "registeredIn S c \<Longrightarrow> set (fieldRequests ft) \<subseteq> set S \<Longrightarrow> registeredIn S (snd (field a b ft c))"
proof -
  assume r: "registeredIn S c" and s: "set (fieldRequests ft) \<subseteq> set S"
  have "snd (field a b ft c) = c \<or> (snd (field a b ft c) = snd (getName ft c) \<and> ft \<in> set (fieldRequests ft))"
    by (cases ft) (auto simp: field_def split: gotype.splits if_splits prod.splits)
  with r s registeredIn_getName [of S c ft] show ?thesis by auto
qed

lemma registeredIn_genFields:
  "registeredIn S c \<Longrightarrow> set (concat (map (\<lambda>f. fieldRequests (snd f)) flds)) \<subseteq> set S
   \<Longrightarrow> registeredIn S (snd (genFields flds c))"
proof (induction flds arbitrary: c)
  case Nil
  then show ?case by simp
next
  case (Cons f flds)
  obtain fname ft where f: "f = (fname, ft)" by (cases f)
  obtain r c1 where fl: "field (''this.'' @ fname) (''that.'' @ fname) ft c = (r, c1)"
    by (cases "field (''this.'' @ fname) (''that.'' @ fname) ft c") auto
  from Cons.prems f have "set (fieldRequests ft) \<subseteq> set S" by simp
  from registeredIn_field [OF Cons.prems(1) this, of "''this.'' @ fname" "''that.'' @ fname"] fl
  have r1: "registeredIn S c1" by simp
  show ?case
  proof (cases r)
    case (Inl e)
    with f fl r1 show ?thesis by simp
  next
    case (Inr s)
    from r1 have "registeredIn S (emit (ifcLines s) c1)" by simp
    from Cons.IH [OF this] Cons.prems(2) have "registeredIn S (snd (genFields flds (emit (ifcLines s) c1)))"
      by simp
    with f fl Inr show ?thesis by simp
  qed
qed

lemma registeredIn_genElems:
  "registeredIn S c \<Longrightarrow> set (fieldRequests el) \<subseteq> set S \<Longrightarrow> registeredIn S (snd (genElems el c))"
proof -
  assume r: "registeredIn S c" and s: "set (fieldRequests el) \<subseteq> set S"
  let ?c1 = "emit [P ''for i := 0; i < len(this); i++ {'', In] c"
  obtain x c2 where fl: "field ''this[i]'' ''that[i]'' el ?c1 = (x, c2)"
    by (cases "field ''this[i]'' ''that[i]'' el ?c1") auto
  from r have "registeredIn S ?c1" by simp
  from registeredIn_field [OF this s, of "''this[i]''" "''that[i]''"] fl have "registeredIn S c2" by simp
  with fl show ?thesis by (cases x) (simp_all add: genElems_def Let_def)
qed

lemma registeredIn_genKeys:
  "registeredIn S c \<Longrightarrow> set (fieldRequests el) \<subseteq> set S \<Longrightarrow> set (fieldRequests key) \<subseteq> set S
   \<Longrightarrow> registeredIn S (snd (genKeys typ key el c))"
proof -
  assume r: "registeredIn S c" and s: "set (fieldRequests el) \<subseteq> set S"
    and k: "set (fieldRequests key) \<subseteq> set S"
  show ?thesis
  proof (cases "sortedKeys c")
    case None
    with r show ?thesis by (simp add: genKeys_def)
  next
    case (Some sk)
    let ?k1 = "fst (GetFuncName typ sk)"
    let ?sk1 = "snd (GetFuncName typ sk)"
    let ?k2 = "fst (GetFuncName typ ?sk1)"
    let ?sk2 = "snd (GetFuncName typ ?sk1)"
    let ?c1 = "emit [P (''thiskeys := '' @ ?k1 @ ''(this)''),
                         P (''thatkeys := '' @ ?k2 @ ''(that)''),
                         P ''for i, thiskey := range thiskeys {'', In,
                         P ''thatkey := thatkeys[i]'',
                         P ''if thiskey == thatkey {'', In] (c\<lparr>sortedKeys := Some ?sk2\<rparr>)"
    obtain x c2 where f1: "field ''this[thiskey]'' ''that[thatkey]'' el ?c1 = (x, c2)"
      by (cases "field ''this[thiskey]'' ''that[thatkey]'' el ?c1") auto
    from r have "registeredIn S ?c1" by simp
    from registeredIn_field [OF this s, of "''this[thiskey]''" "''that[thatkey]''"] f1
    have r2: "registeredIn S c2" by simp
    show ?thesis
    proof (cases x)
      case (Inl e)
      with Some f1 r2 show ?thesis by (simp add: genKeys_def Let_def)
    next
      case (Inr s1)
      let ?c3 = "emit (ifcLines s1 @ [Out, P ''} else {'', In]) c2"
      obtain y c4 where f2: "field ''thiskey'' ''thatkey'' key ?c3 = (y, c4)"
        by (cases "field ''thiskey'' ''thatkey'' key ?c3") auto
      from r2 have "registeredIn S ?c3" by simp
      from registeredIn_field [OF this k, of "''thiskey''" "''thatkey''"] f2
      have "registeredIn S c4" by simp
      with Some f1 Inr f2 show ?thesis by (cases y) (simp_all add: genKeys_def Let_def)
    qed
  qed
qed

lemma fst_set_markGenerating [simp]: "fst ` set (markGenerating t es) = fst ` set es"
  using map_fst_markGenerating [of t es] by (metis set_map)

lemma registeredIn_opened:
  "registeredIn S c \<Longrightarrow> typ \<in> set S \<Longrightarrow> registeredIn S (opened typ c)"
  by (simp add: registeredIn_def GetFuncName_def Generating_def split: option.splits)

lemma registeredIn_genFuncFor:
  assumes "registeredIn S c" "typ \<in> set S" "set (requests D typ) \<subseteq> set S"
  shows "registeredIn S (snd (genFuncFor D typ c))"
proof -
  from registeredIn_opened [OF assms(1,2)] have o: "registeredIn S (opened typ c)" .
  show ?thesis
  proof (cases "Underlying D typ")
    case (Pointer ref)
    with assms(3) have "ref \<in> set S" by (simp add: requests_def)
    with o have "registeredIn S (snd (getName ref (emit nilLines (opened typ c))))"
      by (simp add: registeredIn_getName)
    with Pointer show ?thesis by (simp add: genFuncFor_opened)
  next
    case (Basic k)
    with o show ?thesis by (simp add: genFuncFor_opened)
  next
    case (Struct flds)
    with assms(3) have "set (concat (map (\<lambda>f. fieldRequests (snd f)) flds)) \<subseteq> set S"
      by (simp add: requests_def)
    from registeredIn_genFields [OF o this]
    have "registeredIn S (snd (genFields flds (opened typ c)))" .
    with Struct show ?thesis
      by (cases "genFields flds (opened typ c)") (auto simp: genFuncFor_opened split: option.splits)
  next
    case (Slice el)
    with assms(3) have "set (fieldRequests el) \<subseteq> set S" by (simp add: requests_def)
    with o Slice show ?thesis by (simp add: genFuncFor_opened registeredIn_genElems)
  next
    case (Array n el)
    with assms(3) have "set (fieldRequests el) \<subseteq> set S" by (simp add: requests_def)
    with o Array show ?thesis by (simp add: genFuncFor_opened registeredIn_genElems)
  next
    case (Map key el)
    with assms(3) have "set (fieldRequests el) \<subseteq> set S" "set (fieldRequests key) \<subseteq> set S"
      by (simp_all add: requests_def)
    with o Map show ?thesis by (simp add: genFuncFor_opened registeredIn_genKeys)
  qed (use o in \<open>simp_all add: genFuncFor_opened\<close>)
qed

lemma registeredIn_genAll:
  "registeredIn S c \<Longrightarrow> closedUnder D S \<Longrightarrow> set ts \<subseteq> set S
   \<Longrightarrow> registeredIn S (snd (genAll D ts c))"
proof (induction ts arbitrary: c)
  case Nil
  then show ?case by simp
next
  case (Cons t ts)
  obtain r c1 where g: "genFuncFor D t c = (r, c1)"
    by (cases "genFuncFor D t c") auto
  from Cons.prems have "t \<in> set S" "set (requests D t) \<subseteq> set S"
    by (auto simp: closedUnder_def)
  from registeredIn_genFuncFor [OF Cons.prems(1) this] g have r1: "registeredIn S c1" by simp
  show ?case
  proof (cases r)
    case None
    from Cons.IH [OF r1 Cons.prems(2)] Cons.prems(3) g None show ?thesis by simp
  next
    case (Some e)
    with g r1 show ?thesis by simp
  qed
qed

subsection \<open>A generated type is not pending again\<close>

lemma stateOf_mem: "stateOf es t = Some s \<Longrightarrow> t \<in> fst ` set es"
proof (induction es)
  case Nil
  then show ?case by simp
next
  case (Cons a es)
  obtain t' n s' where "a = (t', n, s')" by (cases a)
  with Cons show ?case by (auto split: if_splits)
qed

lemma pending_subset: "set (pending es) \<subseteq> fst ` set es"
proof (induction es)
  case Nil
  show ?case by simp
next
  case (Cons a es)
  obtain t' n s' where "a = (t', n, s')" by (cases a)
  with Cons show ?case by auto
qed

lemma pending_state:
  "distinct (map fst es) \<Longrightarrow> (t \<in> set (pending es)) = (stateOf es t = Some StRequested)"
proof (induction es)
  case Nil
  show ?case by simp
next
  case (Cons a es)
  obtain t' n s' where a: "a = (t', n, s')" by (cases a)
  from Cons.prems a have d: "distinct (map fst es)" and n: "t' \<notin> fst ` set es" by auto
  from n pending_subset [of es] have "t' \<notin> set (pending es)" by auto
  with Cons.IH [OF d] a show ?case by auto
qed

lemma pending_distinct: "distinct (map fst es) \<Longrightarrow> distinct (pending es)"
proof (induction es)
  case Nil
  show ?case by simp
next
  case (Cons a es)
  obtain t' n s' where a: "a = (t', n, s')" by (cases a)
  from Cons.prems a have d: "distinct (map fst es)" and n: "t' \<notin> fst ` set es" by auto
  from n pending_subset [of es] have "t' \<notin> set (pending es)" by auto
  with Cons.IH [OF d] a show ?case by auto
qed

lemma opened_generating:
  "stateOf (entries (TypesMap c)) t = Some StRequested
   \<Longrightarrow> stateOf (entries (TypesMap (opened t c))) t = Some StGenerating"
  by (simp add: GetFuncName_state Generating_def stateOf_markGenerating)

lemma later_generating:
  "later c c' \<Longrightarrow> stateOf (entries (TypesMap c)) t = Some StGenerating
   \<Longrightarrow> stateOf (entries (TypesMap c')) t = Some StGenerating"
  by (simp add: later_def)

lemma later_single:
  "later c c' \<Longrightarrow> distinct (map fst (entries (TypesMap c)))
   \<Longrightarrow> distinct (map fst (entries (TypesMap c')))"
  by (simp add: later_def)

lemma genFuncFor_generating:
  "stateOf (entries (TypesMap c)) t = Some StRequested
   \<Longrightarrow> stateOf (entries (TypesMap (snd (genFuncFor D t c)))) t = Some StGenerating"
  using later_generating [OF later_opened_genFuncFor [of t c D]] opened_generating by blast

lemma generated_not_pending:
  assumes "distinct (map fst (entries (TypesMap c)))" "t \<in> set (ToGenerate (TypesMap c))"
    "later (snd (genFuncFor D t c)) c'"
  shows "t \<notin> set (ToGenerate (TypesMap c'))"
proof -
  from assms(1,2) have "stateOf (entries (TypesMap c)) t = Some StRequested"
    by (simp add: ToGenerate_def pending_state)
  from later_generating [OF assms(3) genFuncFor_generating [OF this]]
  have g: "stateOf (entries (TypesMap c')) t = Some StGenerating" .
  from later_single [OF later_trans [OF later_genFuncFor assms(3)] assms(1)]
  have "distinct (map fst (entries (TypesMap c')))" .
  with g show ?thesis by (simp add: ToGenerate_def pending_state)
qed

subsection \<open>The driver ends\<close>

lemma generatingIn_subset: "registeredIn S c \<Longrightarrow> generatingIn c \<subseteq> set S"
  using stateOf_mem by (fastforce simp: generatingIn_def registeredIn_def)

lemma generatingIn_later: "later c c' \<Longrightarrow> generatingIn c \<subseteq> generatingIn c'"
  by (auto simp: generatingIn_def later_generating)

lemma Generate_progress:
  assumes d: "distinct (map fst (entries (TypesMap c)))"
    and p: "ToGenerate (TypesMap c) \<noteq> []"
    and g: "Generate D c = (None, c')"
  shows "generatingIn c \<subset> generatingIn c'"
proof -
  from p obtain t ts where tt: "ToGenerate (TypesMap c) = t # ts" by (cases "ToGenerate (TypesMap c)") auto
  with d have r: "stateOf (entries (TypesMap c)) t = Some StRequested"
    using pending_state [of "entries (TypesMap c)" t] by (simp add: ToGenerate_def)
  obtain x c1 where f: "genFuncFor D t c = (x, c1)" by (cases "genFuncFor D t c") auto
  with g tt have x: "x = None" and rest: "genAll D ts c1 = (None, c')"
    by (auto simp: Generate_def split: option.splits)
  from genFuncFor_generating [OF r, of D] f have "stateOf (entries (TypesMap c1)) t = Some StGenerating"
    by simp
  from later_generating [OF later_genAll [of c1 D ts] this] rest
  have "t \<in> generatingIn c'" by (simp add: generatingIn_def)
  moreover from r have "t \<notin> generatingIn c" by (simp add: generatingIn_def)
  moreover from later_genAll [of c D "ToGenerate (TypesMap c)"] g
  have "generatingIn c \<subseteq> generatingIn c'"
    by (simp add: Generate_def generatingIn_later)
  ultimately show ?thesis by blast
qed

lemma drive_terminates_aux:
  "closedUnder D S \<Longrightarrow> registeredIn S c \<Longrightarrow> distinct (map fst (entries (TypesMap c)))
   \<Longrightarrow> card (set S) - card (generatingIn c) < n
   \<Longrightarrow> \<exists>e c'. drive n D c = Some (e, c') \<and> later c c'
        \<and> (e = None \<longrightarrow> ToGenerate (TypesMap c') = [])"
proof (induction n arbitrary: c)
  case 0
  then show ?case by simp
next
  case (Suc n)
  show ?case
  proof (cases "ToGenerate (TypesMap c) = []")
    case True
    then show ?thesis by simp
  next
    case False
    obtain r c1 where g: "Generate D c = (r, c1)" by (cases "Generate D c") auto
    from later_genAll [of c D "ToGenerate (TypesMap c)"] g have l: "later c c1"
      by (simp add: Generate_def)
    show ?thesis
    proof (cases r)
      case (Some e)
      with False g l show ?thesis by simp
    next
      case None
      from Suc.prems(2) pending_subset [of "entries (TypesMap c)"]
      have "set (ToGenerate (TypesMap c)) \<subseteq> set S"
        by (auto simp: ToGenerate_def registeredIn_def)
      from registeredIn_genAll [OF Suc.prems(2) Suc.prems(1) this] g
      have r1: "registeredIn S c1" by (simp add: Generate_def)
      from later_single [OF l Suc.prems(3)] have d1: "distinct (map fst (entries (TypesMap c1)))" .
      from Generate_progress [OF Suc.prems(3) False g [unfolded None]]
      have "generatingIn c \<subset> generatingIn c1" .
      moreover from generatingIn_subset [OF r1] have sub: "generatingIn c1 \<subseteq> set S" .
      ultimately have "card (generatingIn c) < card (generatingIn c1)"
        by (meson List.finite_set finite_subset psubset_card_mono)
      moreover from sub have "card (generatingIn c1) \<le> card (set S)"
        by (simp add: card_mono)
      ultimately have "card (set S) - card (generatingIn c1) < n"
        using Suc.prems(4) by linarith
      from Suc.IH [OF Suc.prems(1) r1 d1 this] obtain e c' where
          dr: "drive n D c1 = Some (e, c')" "later c1 c'" "e = None \<longrightarrow> ToGenerate (TypesMap c') = []"
        by blast
      from later_trans [OF l dr(2)] have "later c c'" .
      with False g None dr show ?thesis by simp
    qed
  qed
qed

lemma drive_terminates:
  assumes "closedUnder D S" "registeredIn S c" "distinct (map fst (entries (TypesMap c)))"
    "length S < n"
  shows "\<exists>e c'. drive n D c = Some (e, c') \<and> later c c'
        \<and> (e = None \<longrightarrow> ToGenerate (TypesMap c') = [])"
proof -
  have "card (set S) \<le> length S" by (rule card_length)
  with assms(4) have "card (set S) - card (generatingIn c) < n" by linarith
  from drive_terminates_aux [OF assms(1-3) this] show ?thesis .
qed

subsection \<open>A field that points to a named type\<close>

lemma pemit_indent_ifcLines [simp]: "indent (pemit (ifcLines s) p) = indent p"
  by (simp add: ifcLines_def)

lemma genFields_method_line:
  "(fname, Pointer (Named n)) \<in> set flds \<Longrightarrow> fst (genFields flds c) = None
   \<Longrightarrow> (indent (printer c), ''if c := this.'' @ fname @ ''.Compare(that.'' @ fname @ ''); c != 0 {'')
        \<in> set (lines (printer (snd (genFields flds c))))"
proof (induction flds arbitrary: c)
  case Nil
  then show ?case by simp
next
  case (Cons f flds)
  obtain fn ft where f: "f = (fn, ft)" by (cases f)
  obtain r c1 where fl: "field (''this.'' @ fn) (''that.'' @ fn) ft c = (r, c1)"
    by (cases "field (''this.'' @ fn) (''that.'' @ fn) ft c") auto
  from field_state [OF fl] have p1: "printer c1 = printer c" by simp
  show ?case
  proof (cases r)
    case (Inl e)
    with Cons.prems(2) f fl show ?thesis by simp
  next
    case (Inr s)
    let ?c2 = "emit (ifcLines s) c1"
    from f fl Inr have step: "genFields (f # flds) c = genFields flds ?c2" by simp
    show ?thesis
    proof (cases "f = (fname, Pointer (Named n))")
      case True
      with f fl Inr have s: "s = ''this.'' @ fname @ ''.Compare(that.'' @ fname @ '')''" and "c1 = c"
        by (auto simp: field_def)
      with p1 have "(indent (printer c), ''if c := this.'' @ fname @ ''.Compare(that.'' @ fname @ ''); c != 0 {'')
          \<in> set (lines (printer ?c2))"
        by (simp add: ifcLines_def)
      moreover from later_lines [OF later_genFields [of ?c2 flds]] obtain ls where
          "lines (printer (snd (genFields flds ?c2))) = lines (printer ?c2) @ ls"
        by blast
      ultimately show ?thesis using step by simp
    next
      case False
      with Cons.prems(1) have m: "(fname, Pointer (Named n)) \<in> set flds" by simp
      from Cons.prems(2) step have "fst (genFields flds ?c2) = None" by simp
      from Cons.IH [OF m this] p1 step show ?thesis by simp
    qed
  qed
qed

lemma genFuncFor_method_line:
  assumes "Underlying D typ = Struct flds" "(fname, Pointer (Named n)) \<in> set flds"
    "fst (genFuncFor D typ c) = None"
  shows "(Suc (indent (printer c)),
          ''if c := this.'' @ fname @ ''.Compare(that.'' @ fname @ ''); c != 0 {'')
        \<in> set (lines (printer (snd (genFuncFor D typ c))))"
proof -
  obtain r c5 where g: "genFields flds (opened typ c) = (r, c5)"
    by (cases "genFields flds (opened typ c)") auto
  with assms(1,3) have r: "r = None"
    by (cases r) (simp_all add: genFuncFor_opened)
  from genFields_method_line [OF assms(2), of "opened typ c"] g r
  have "(Suc (indent (printer c)),
          ''if c := this.'' @ fname @ ''.Compare(that.'' @ fname @ ''); c != 0 {'')
        \<in> set (lines (printer c5))"
    by (simp add: opened_printer)
  moreover from assms(1) g r have "snd (genFuncFor D typ c) = snd (closeFunc (emit [P ''return 0''] c5))"
    by (simp add: genFuncFor_opened)
  ultimately show ?thesis by simp
qed

subsection \<open>One function for each registered type\<close>

lemma requestAll_append: "requestAll (xs @ ys) tm = requestAll ys (requestAll xs tm)"
  by (induction xs arbitrary: tm) auto

lemma requested_refl [simp]: "requested c c"
  unfolding requested_def by (rule exI [of _ "[]"]) simp

lemma requested_trans: "requested a b \<Longrightarrow> requested b c \<Longrightarrow> requested a c"
  unfolding requested_def using requestAll_append by metis

lemma requested_emit [simp]:
  "requested c (emit cs c') = requested c c'" "requested (emit cs c) c' = requested c c'"
  by (simp_all add: requested_def)

lemma requested_sortedKeys [simp]:
  "requested c (c'\<lparr>sortedKeys := x\<rparr>) = requested c c'"
  "requested (c\<lparr>sortedKeys := x\<rparr>) c' = requested c c'"
  by (simp_all add: requested_def)

lemma requested_closeFunc [simp]: "requested c (snd (closeFunc c')) = requested c c'"
  by (simp add: closeFunc_def)

lemma requested_getName [simp]: "requested c (snd (getName t c))"
  unfolding requested_def by (rule exI [of _ "[t]"]) simp

lemma requested_field: "requested c (snd (field a b t c))"
proof -
  have "snd (field a b t c) = c \<or> snd (field a b t c) = snd (getName t c)"
    by (cases t) (auto simp: field_def split: gotype.splits if_splits prod.splits)
  then show ?thesis by auto
qed

lemma requested_genFields: "requested c (snd (genFields flds c))"
proof (induction flds arbitrary: c)
  case Nil
  show ?case by simp
next
  case (Cons f flds)
  obtain fname ft where f: "f = (fname, ft)" by (cases f)
  obtain r c1 where fl: "field (''this.'' @ fname) (''that.'' @ fname) ft c = (r, c1)"
    by (cases "field (''this.'' @ fname) (''that.'' @ fname) ft c") auto
  from requested_field [of c "''this.'' @ fname" "''that.'' @ fname" ft] fl
  have r1: "requested c c1" by simp
  show ?case
  proof (cases r)
    case (Inl e)
    with f fl r1 show ?thesis by simp
  next
    case (Inr s)
    from Cons.IH [of "emit (ifcLines s) c1"]
    have "requested c1 (snd (genFields flds (emit (ifcLines s) c1)))" by simp
    from requested_trans [OF r1 this] f fl Inr show ?thesis by simp
  qed
qed

lemma requested_genElems: "requested c (snd (genElems el c))"
proof -
  let ?c1 = "emit [P ''for i := 0; i < len(this); i++ {'', In] c"
  obtain x c2 where fl: "field ''this[i]'' ''that[i]'' el ?c1 = (x, c2)"
    by (cases "field ''this[i]'' ''that[i]'' el ?c1") auto
  from requested_field [of ?c1 "''this[i]''" "''that[i]''" el] fl have "requested c c2" by simp
  with fl show ?thesis by (cases x) (simp_all add: genElems_def Let_def)
qed

lemma requested_genKeys: "requested c (snd (genKeys typ key el c))"
proof (cases "sortedKeys c")
  case None
  then show ?thesis by (simp add: genKeys_def)
next
  case (Some sk)
  let ?k1 = "fst (GetFuncName typ sk)"
  let ?sk1 = "snd (GetFuncName typ sk)"
  let ?k2 = "fst (GetFuncName typ ?sk1)"
  let ?sk2 = "snd (GetFuncName typ ?sk1)"
  let ?c1 = "emit [P (''thiskeys := '' @ ?k1 @ ''(this)''),
                       P (''thatkeys := '' @ ?k2 @ ''(that)''),
                       P ''for i, thiskey := range thiskeys {'', In,
                       P ''thatkey := thatkeys[i]'',
                       P ''if thiskey == thatkey {'', In] (c\<lparr>sortedKeys := Some ?sk2\<rparr>)"
  obtain x c2 where f1: "field ''this[thiskey]'' ''that[thatkey]'' el ?c1 = (x, c2)"
    by (cases "field ''this[thiskey]'' ''that[thatkey]'' el ?c1") auto
  from requested_field [of ?c1 "''this[thiskey]''" "''that[thatkey]''" el] f1
  have r2: "requested c c2" by simp
  show ?thesis
  proof (cases x)
    case (Inl e)
    with Some f1 r2 show ?thesis by (simp add: genKeys_def Let_def)
  next
    case (Inr s1)
    let ?c3 = "emit (ifcLines s1 @ [Out, P ''} else {'', In]) c2"
    obtain y c4 where f2: "field ''thiskey'' ''thatkey'' key ?c3 = (y, c4)"
      by (cases "field ''thiskey'' ''thatkey'' key ?c3") auto
    from requested_field [of ?c3 "''thiskey''" "''thatkey''" key] f2
    have "requested c2 c4" by simp
    from requested_trans [OF r2 this] have "requested c c4" .
    with Some f1 Inr f2 show ?thesis by (cases y) (simp_all add: genKeys_def Let_def)
  qed
qed

lemma requested_opened_genFuncFor: "requested (opened typ c) (snd (genFuncFor D typ c))"
proof (cases "Underlying D typ")
  case (Pointer ref)
  have "requested (opened typ c) (snd (getName ref (emit nilLines (opened typ c))))"
    unfolding requested_def by (rule exI [of _ "[ref]"]) simp
  with Pointer show ?thesis by (simp add: genFuncFor_opened)
next
  case (Basic k)
  then show ?thesis by (simp add: genFuncFor_opened)
next
  case (Struct flds)
  from requested_genFields [of "opened typ c" flds] Struct show ?thesis
    by (cases "genFields flds (opened typ c)") (auto simp: genFuncFor_opened split: option.splits)
next
  case (Slice el)
  from requested_genElems [of "emit (nilLines @ lenLines) (opened typ c)" el] Slice
  show ?thesis by (simp add: genFuncFor_opened)
next
  case (Array n el)
  from requested_genElems [of "emit lenLines (opened typ c)" el] Array
  show ?thesis by (simp add: genFuncFor_opened)
next
  case (Map key el)
  from requested_genKeys [of "emit (nilLines @ lenLines) (opened typ c)" "typ" key el] Map
  show ?thesis by (simp add: genFuncFor_opened)
qed (simp_all add: genFuncFor_opened)

lemma requestAll_entries:
  "\<exists>new. entries (requestAll ts tm) = entries tm @ new \<and> allRequested new"
proof (induction ts arbitrary: tm)
  case Nil
  show ?case by (simp add: allRequested_def)
next
  case (Cons t ts)
  have "\<exists>n1. entries (snd (GetFuncName t tm)) = entries tm @ n1 \<and> allRequested n1"
    by (auto simp: GetFuncName_def allRequested_def split: option.splits)
  then obtain n1 where n1: "entries (snd (GetFuncName t tm)) = entries tm @ n1" "allRequested n1"
    by blast
  from Cons [of "snd (GetFuncName t tm)"] obtain n2 where
      n2: "entries (requestAll ts (snd (GetFuncName t tm))) = entries (snd (GetFuncName t tm)) @ n2"
        "allRequested n2"
    by blast
  from n1 n2 have "entries (requestAll (t # ts) tm) = entries tm @ (n1 @ n2) \<and> allRequested (n1 @ n2)"
    by (auto simp: allRequested_def)
  then show ?case by blast
qed

lemma markGenerating_first:
  "t \<notin> fst ` set G \<Longrightarrow> markGenerating t (G @ (t, n, StRequested) # R) = G @ (t, n, StGenerating) # R"
proof (induction G)
  case Nil
  show ?case by simp
next
  case (Cons a G)
  obtain t' n' s' where "a = (t', n', s')" by (cases a)
  with Cons show ?case by auto
qed

lemma nameOf_mid:
  "t \<notin> fst ` set G \<Longrightarrow> nameOf (G @ (t, n, s) # R) t = Some n"
proof (induction G)
  case Nil
  show ?case by simp
next
  case (Cons a G)
  obtain t' n' s' where "a = (t', n', s')" by (cases a)
  with Cons show ?case by auto
qed

lemma genFuncFor_entries:
  assumes e: "entries (TypesMap c) = G @ (t, n, StRequested) # R" and g: "t \<notin> fst ` set G"
  shows "\<exists>new. entries (TypesMap (snd (genFuncFor D t c))) = G @ (t, n, StGenerating) # R @ new
      \<and> allRequested new"
proof -
  from e g have m: "entries (Generating t (TypesMap c)) = G @ (t, n, StGenerating) # R"
    by (simp add: Generating_def markGenerating_first)
  with g have "nameOf (entries (Generating t (TypesMap c))) t = Some n"
    by (simp add: nameOf_mid del: Generating_keeps)
  then have "snd (GetFuncName t (Generating t (TypesMap c))) = Generating t (TypesMap c)"
    by (simp add: GetFuncName_def)
  with m have o: "entries (TypesMap (opened t c)) = G @ (t, n, StGenerating) # R" by simp
  from requested_opened_genFuncFor [of t c D] obtain ts where
      "TypesMap (snd (genFuncFor D t c)) = requestAll ts (TypesMap (opened t c))"
    unfolding requested_def by blast
  with requestAll_entries [of ts "TypesMap (opened t c)"] o show ?thesis by auto
qed

lemma pending_append: "pending (xs @ ys) = pending xs @ pending ys"
proof (induction xs)
  case Nil
  show ?case by simp
next
  case (Cons a xs)
  obtain t n s where "a = (t, n, s)" by (cases a)
  with Cons show ?case by simp
qed

lemma pending_allRequested: "allRequested R \<Longrightarrow> pending R = map fst R"
proof (induction R)
  case Nil
  show ?case by simp
next
  case (Cons a R)
  obtain t n s where "a = (t, n, s)" by (cases a)
  with Cons show ?case by (simp add: allRequested_def)
qed

lemma pending_generated [simp]: "pending (generated R) = []"
proof (induction R)
  case Nil
  show ?case by (simp add: generated_def)
next
  case (Cons a R)
  then show ?case by (simp add: generated_def)
qed

lemma map_fst_generated [simp]: "map fst (generated R) = map fst R"
  by (simp add: generated_def)

lemma generated_append [simp]: "generated (xs @ ys) = generated xs @ generated ys"
  by (simp add: generated_def)

lemma length_generated [simp]: "length (generated R) = length R"
  by (simp add: generated_def)

lemma funcTexts_generated [simp]: "funcTexts d q (generated R) bodies = funcTexts d q R bodies"
proof -
  have "map2 (\<lambda>e body. showFunc d (fst (snd e)) (q (fst e)) body) (generated R) bodies
      = map2 (\<lambda>e body. showFunc d (fst (snd e)) (q (fst e)) body) R bodies"
    unfolding generated_def by (simp add: zip_map1 split_def)
  then show ?thesis by (simp add: funcTexts_def)
qed

lemma funcTexts_append:
  "length es = length bodies
   \<Longrightarrow> funcTexts d q (es @ es') (bodies @ bodies') = funcTexts d q es bodies @ funcTexts d q es' bodies'"
  by (simp add: funcTexts_def)

lemma funcTexts_Cons:
  "funcTexts d q (e # es) (b # bodies) = showFunc d (fst (snd e)) (q (fst e)) b @ funcTexts d q es bodies"
  by (simp add: funcTexts_def)

lemma funcTexts_Nil [simp]: "funcTexts d q [] [] = []"
  by (simp add: funcTexts_def)

lemma genAll_texts:
  "genAll D (map fst R) c = (None, c') \<Longrightarrow> entries (TypesMap c) = G @ R @ N
   \<Longrightarrow> allRequested R \<Longrightarrow> distinct (map fst (entries (TypesMap c)))
   \<Longrightarrow> \<exists>new bodies. entries (TypesMap c') = G @ generated R @ N @ new \<and> allRequested new
        \<and> length bodies = length R
        \<and> lines (printer c') = lines (printer c) @ funcTexts (indent (printer c)) (qual c) R bodies
        \<and> indent (printer c') = indent (printer c) \<and> qual c' = qual c"
proof (induction R arbitrary: c G N)
  case Nil
  then have "c' = c" by simp
  with Nil.prems(2) have "entries (TypesMap c') = G @ generated [] @ N @ [] \<and> allRequested []
        \<and> length ([] :: stmt list list) = length ([] :: (gotype \<times> string \<times> genState) list)
        \<and> lines (printer c') = lines (printer c) @ funcTexts (indent (printer c)) (qual c) [] []
        \<and> indent (printer c') = indent (printer c) \<and> qual c' = qual c"
    by (simp add: generated_def allRequested_def)
  then show ?case by blast
next
  case (Cons a R)
  obtain t n s where a: "a = (t, n, s)" by (cases a)
  from Cons.prems(3) a have s: "s = StRequested" and ar: "allRequested R"
    by (simp_all add: allRequested_def)
  from Cons.prems(2) a s have e: "entries (TypesMap c) = G @ (t, n, StRequested) # (R @ N)" by simp
  from Cons.prems(4) e have tg: "t \<notin> fst ` set G" by auto
  obtain r c1 where g: "genFuncFor D t c = (r, c1)" by (cases "genFuncFor D t c") auto
  with Cons.prems(1) a have r: "r = None" and rest: "genAll D (map fst R) c1 = (None, c')"
    by (auto split: option.splits)
  from genFuncFor_entries [OF e tg, of D] g obtain new1 where
      e1: "entries (TypesMap c1) = G @ (t, n, StGenerating) # (R @ N) @ new1" and n1: "allRequested new1"
    by auto
  from e1 have e1': "entries (TypesMap c1) = (G @ [(t, n, StGenerating)]) @ R @ (N @ new1)" by simp
  from later_single [OF later_genFuncFor [of c D t] Cons.prems(4)] g
  have d1: "distinct (map fst (entries (TypesMap c1)))" by simp
  from genFuncFor_text [OF g [unfolded r]] obtain name body where
      nm: "nameOf (entries (TypesMap c1)) t = Some name"
      and pr: "printer c1 = (printer c)\<lparr>lines := lines (printer c) @
            showFunc (indent (printer c)) name (qual c t) body\<rparr>"
    by blast
  from e1 tg nameOf_mid [of t G n StGenerating "(R @ N) @ new1"] nm have name: "name = n" by simp
  from later_qual [OF later_genFuncFor [of c D t]] g have q1: "qual c1 = qual c" by simp
  from Cons.IH [OF rest e1' ar d1] obtain new2 bodies where
      i: "entries (TypesMap c') = (G @ [(t, n, StGenerating)]) @ generated R @ (N @ new1) @ new2"
        "allRequested new2" "length bodies = length R"
        "lines (printer c') = lines (printer c1) @ funcTexts (indent (printer c1)) (qual c1) R bodies"
        "indent (printer c') = indent (printer c1)" "qual c' = qual c1"
    by blast
  from i(1) a have "entries (TypesMap c') = G @ generated (a # R) @ N @ (new1 @ new2)"
    by (simp add: generated_def)
  moreover from n1 i(2) have "allRequested (new1 @ new2)" by (auto simp: allRequested_def)
  moreover from i(3) have "length (body # bodies) = length (a # R)" by simp
  moreover from i(4) pr q1 name a
  have "lines (printer c') = lines (printer c) @ funcTexts (indent (printer c)) (qual c) (a # R) (body # bodies)"
    by (simp add: funcTexts_Cons)
  moreover from i(5,6) pr q1 have "indent (printer c') = indent (printer c) \<and> qual c' = qual c" by simp
  ultimately show ?case by blast
qed

lemma drive_texts:
  "drive n D c = Some (None, c') \<Longrightarrow> entries (TypesMap c) = G @ R \<Longrightarrow> pending G = []
   \<Longrightarrow> allRequested R \<Longrightarrow> distinct (map fst (entries (TypesMap c)))
   \<Longrightarrow> \<exists>R' bodies. entries (TypesMap c') = G @ generated R' \<and> length bodies = length R'
        \<and> lines (printer c') = lines (printer c) @ funcTexts (indent (printer c)) (qual c) R' bodies"
proof (induction n arbitrary: c G R)
  case 0
  then show ?case by simp
next
  case (Suc n)
  from Suc.prems(2,3,4) have tg: "ToGenerate (TypesMap c) = map fst R"
    by (simp add: ToGenerate_def pending_append pending_allRequested)
  show ?case
  proof (cases "R = []")
    case True
    with tg Suc.prems(1) have "c' = c" by simp
    with True Suc.prems(2) have "entries (TypesMap c') = G @ generated [] \<and>
        length ([] :: stmt list list) = length ([] :: (gotype \<times> string \<times> genState) list)
        \<and> lines (printer c') = lines (printer c) @ funcTexts (indent (printer c)) (qual c) [] []"
      by (simp add: generated_def)
    then show ?thesis by blast
  next
    case False
    with tg have ne: "ToGenerate (TypesMap c) \<noteq> []" by simp
    obtain r c1 where g: "Generate D c = (r, c1)" by (cases "Generate D c") auto
    with Suc.prems(1) ne have r: "r = None" and dr: "drive n D c1 = Some (None, c')"
      by (auto split: option.splits)
    from g r tg have ga: "genAll D (map fst R) c = (None, c1)" by (simp add: Generate_def)
    from Suc.prems(2) have "entries (TypesMap c) = G @ R @ []" by simp
    from genAll_texts [OF ga this Suc.prems(4,5)] obtain new bodies where
        a: "entries (TypesMap c1) = G @ generated R @ [] @ new" "allRequested new"
          "length bodies = length R"
          "lines (printer c1) = lines (printer c) @ funcTexts (indent (printer c)) (qual c) R bodies"
          "indent (printer c1) = indent (printer c)" "qual c1 = qual c"
      by blast
    from a(1) have e1: "entries (TypesMap c1) = (G @ generated R) @ new" by simp
    from Suc.prems(3) have p1: "pending (G @ generated R) = []" by (simp add: pending_append)
    from later_single [OF later_genAll [of c D "map fst R"] Suc.prems(5)] ga
    have d1: "distinct (map fst (entries (TypesMap c1)))" by simp
    from Suc.IH [OF dr e1 p1 a(2) d1] obtain R1 bodies1 where
        b: "entries (TypesMap c') = (G @ generated R) @ generated R1" "length bodies1 = length R1"
          "lines (printer c') = lines (printer c1) @ funcTexts (indent (printer c1)) (qual c1) R1 bodies1"
      by blast
    from b(1) have "entries (TypesMap c') = G @ generated (R @ R1)" by simp
    moreover from a(3) b(2) have "length (bodies @ bodies1) = length (R @ R1)" by simp
    moreover from a(3,4,5,6) b(3)
    have "lines (printer c') = lines (printer c) @ funcTexts (indent (printer c)) (qual c) (R @ R1) (bodies @ bodies1)"
      by (simp add: funcTexts_append)
    ultimately show ?thesis by blast
  qed
qed

lemma drive_one_function_each:
  assumes "drive n D c = Some (None, c')" "allRequested (entries (TypesMap c))"
    "distinct (map fst (entries (TypesMap c)))"
  shows "\<exists>bodies. length bodies = length (entries (TypesMap c'))
      \<and> lines (printer c') = lines (printer c)
          @ funcTexts (indent (printer c)) (qual c) (entries (TypesMap c')) bodies"
proof -
  have "entries (TypesMap c) = [] @ entries (TypesMap c)" by simp
  from drive_texts [OF assms(1) this _ assms(2,3)] obtain R' bodies where
      "entries (TypesMap c') = [] @ generated R'" "length bodies = length R'"
      "lines (printer c') = lines (printer c) @ funcTexts (indent (printer c)) (qual c) R' bodies"
    by auto
  then have "length bodies = length (entries (TypesMap c'))
      \<and> lines (printer c') = lines (printer c)
          @ funcTexts (indent (printer c)) (qual c) (entries (TypesMap c')) bodies"
    by simp
  then show ?thesis by blast
qed

subsection \<open>The run on the linked list\<close>

lemma ex_node_start:
  "exNodePlugin = exNodeState [(Pointer (Named ''Node''), ''deriveCompare'', StRequested)] []"
  by (simp add: exNodePlugin_def exNodeState_def exPlugin_def exSite_def HasPrefix_def
      SetFuncName_def newTypesMap_def newPrinter_def NewImport_def)

lemma exNodeState_eqI:
  "TypesMap c = \<lparr>prefix = ''deriveCompare'', canonicalName = typeString, entries = es\<rparr>
   \<Longrightarrow> printer c = \<lparr>indent = 0, lines = ls\<rparr> \<Longrightarrow> qual c = typeString
   \<Longrightarrow> bytesPkg c = ''bytes'' \<Longrightarrow> stringsPkg c = ''strings''
   \<Longrightarrow> sortedKeys c = Some \<lparr>prefix = ''deriveSortedKeys'', canonicalName = typeString, entries = []\<rparr>
   \<Longrightarrow> c = exNodeState es ls"
  by (cases c) (simp add: exNodeState_def)

lemma ex_node_gen1:
  "genFuncFor exDecls (Pointer (Named ''Node''))
     (exNodeState [(Pointer (Named ''Node''), ''deriveCompare'', StRequested)] ls)
   = (None, exNodeState [(Pointer (Named ''Node''), ''deriveCompare'', StGenerating),
                          (Named ''Node'', ''deriveCompare_Node'', StRequested)]
        (ls @ exPtrText))"
proof -
  let ?r = "genFuncFor exDecls (Pointer (Named ''Node''))
     (exNodeState [(Pointer (Named ''Node''), ''deriveCompare'', StRequested)] ls)"
  have "fst ?r = None"
    by (simp add: genFuncFor_opened closeFunc_def)
  moreover have "snd ?r = exNodeState [(Pointer (Named ''Node''), ''deriveCompare'', StGenerating),
                          (Named ''Node'', ''deriveCompare_Node'', StRequested)] (ls @ exPtrText)"
    by (rule exNodeState_eqI)
      (simp_all add: exNodeState_def genFuncFor_opened opened_printer Generating_def
        GetFuncName_def newName_def nilLines_def exPtrText_def closeFunc_def getName_def)
  ultimately show ?thesis by (simp add: prod_eq_iff)
qed

lemma ex_node_gen2:
  "genFuncFor exDecls (Named ''Node'')
     (exNodeState [(Pointer (Named ''Node''), ''deriveCompare'', StGenerating),
                   (Named ''Node'', ''deriveCompare_Node'', StRequested)] ls)
   = (None, exNodeState [(Pointer (Named ''Node''), ''deriveCompare'', StGenerating),
                          (Named ''Node'', ''deriveCompare_Node'', StGenerating),
                          (Basic IntKind, ''deriveCompare_int'', StRequested)]
        (ls @ exNodeText))"
proof -
  let ?r = "genFuncFor exDecls (Named ''Node'')
     (exNodeState [(Pointer (Named ''Node''), ''deriveCompare'', StGenerating),
                   (Named ''Node'', ''deriveCompare_Node'', StRequested)] ls)"
  have "fst ?r = None"
    by (simp add: exNodeState_def genFuncFor_opened Generating_def GetFuncName_def newName_def
        exDecls_def field_def closeFunc_def getName_def)
  moreover have "snd ?r = exNodeState [(Pointer (Named ''Node''), ''deriveCompare'', StGenerating),
                          (Named ''Node'', ''deriveCompare_Node'', StGenerating),
                          (Basic IntKind, ''deriveCompare_int'', StRequested)] (ls @ exNodeText)"
    by (rule exNodeState_eqI)
      (simp_all add: exNodeState_def genFuncFor_opened opened_printer Generating_def
        GetFuncName_def newName_def exDecls_def field_def callStr_def ifcLines_def exNodeText_def
        closeFunc_def getName_def)
  ultimately show ?thesis by (simp add: prod_eq_iff)
qed

lemma ex_node_gen3:
  "genFuncFor exDecls (Basic IntKind)
     (exNodeState [(Pointer (Named ''Node''), ''deriveCompare'', StGenerating),
                   (Named ''Node'', ''deriveCompare_Node'', StGenerating),
                   (Basic IntKind, ''deriveCompare_int'', StRequested)] ls)
   = (None, exNodeState [(Pointer (Named ''Node''), ''deriveCompare'', StGenerating),
                          (Named ''Node'', ''deriveCompare_Node'', StGenerating),
                          (Basic IntKind, ''deriveCompare_int'', StGenerating)]
        (ls @ exIntText))"
proof -
  let ?r = "genFuncFor exDecls (Basic IntKind)
     (exNodeState [(Pointer (Named ''Node''), ''deriveCompare'', StGenerating),
                   (Named ''Node'', ''deriveCompare_Node'', StGenerating),
                   (Basic IntKind, ''deriveCompare_int'', StRequested)] ls)"
  have "fst ?r = None"
    by (simp add: genFuncFor_opened closeFunc_def)
  moreover have "snd ?r = exNodeState [(Pointer (Named ''Node''), ''deriveCompare'', StGenerating),
                          (Named ''Node'', ''deriveCompare_Node'', StGenerating),
                          (Basic IntKind, ''deriveCompare_int'', StGenerating)] (ls @ exIntText)"
    by (rule exNodeState_eqI)
      (simp_all add: exNodeState_def genFuncFor_opened opened_printer Generating_def
        GetFuncName_def newName_def basicLines_def exIntText_def closeFunc_def getName_def)
  ultimately show ?thesis by (simp add: prod_eq_iff)
qed

lemma ToGenerate_exNodeState: "ToGenerate (TypesMap (exNodeState es ls)) = pending es"
  by (simp add: ToGenerate_def exNodeState_def)

lemma ex_node_run:
  "drive 4 exDecls exNodePlugin
   = Some (None, exNodeState [(Pointer (Named ''Node''), ''deriveCompare'', StGenerating),
                               (Named ''Node'', ''deriveCompare_Node'', StGenerating),
                               (Basic IntKind, ''deriveCompare_int'', StGenerating)]
        (exPtrText @ exNodeText @ exIntText))"
proof -
  have "(4::nat) = Suc (Suc (Suc (Suc 0)))" by simp
  then show ?thesis
    by (simp only: ex_node_start)
      (simp add: Generate_def ToGenerate_exNodeState ex_node_gen1 ex_node_gen2 ex_node_gen3)
qed

subsection \<open>The claim\<close>

lemma drive_later: "drive n D c = Some (e, c') \<Longrightarrow> later c c'"
proof (induction n arbitrary: c)
  case 0
  then show ?case by simp
next
  case (Suc n)
  show ?case
  proof (cases "ToGenerate (TypesMap c) = []")
    case True
    with Suc.prems show ?thesis by simp
  next
    case False
    obtain r c1 where g: "Generate D c = (r, c1)" by (cases "Generate D c") auto
    from later_genAll [of c D "ToGenerate (TypesMap c)"] g have l: "later c c1"
      by (simp add: Generate_def)
    show ?thesis
    proof (cases r)
      case (Some err)
      with False g l Suc.prems show ?thesis by simp
    next
      case None
      with False g Suc.prems have "drive n D c1 = Some (e, c')" by simp
      from later_trans [OF l Suc.IH [OF this]] show ?thesis .
    qed
  qed
qed

lemma drive_done: "drive n D c = Some (None, c') \<Longrightarrow> ToGenerate (TypesMap c') = []"
proof (induction n arbitrary: c)
  case 0
  then show ?case by simp
next
  case (Suc n)
  show ?case
  proof (cases "ToGenerate (TypesMap c) = []")
    case True
    with Suc.prems show ?thesis by simp
  next
    case False
    obtain r c1 where g: "Generate D c = (r, c1)" by (cases "Generate D c") auto
    show ?thesis
    proof (cases r)
      case (Some err)
      with False g Suc.prems show ?thesis by simp
    next
      case None
      with False g Suc.prems have "drive n D c1 = Some (None, c')" by simp
      from Suc.IH [OF this] show ?thesis .
    qed
  qed
qed

lemma later_getName_same:
  "later c c' \<Longrightarrow> nameOf (entries (TypesMap c)) t = Some name \<Longrightarrow> getName t c' = (name, c')"
proof -
  assume "later c c'" and "nameOf (entries (TypesMap c)) t = Some name"
  then have "nameOf (entries (TypesMap c')) t = Some name"
    by (simp add: later_def grows_def)
  then show ?thesis by (simp add: getName_def GetFuncName_def)
qed

text \<open>
  Claim C2 as the spec states it ("emitting exactly one finite function body per type,
  in which the recursive reference is a call to the type's own generated function")
  fails in its last part on the linked-list node itself,
  \<^verbatim>\<open>type Node struct { Val int; Next *Node }\<close>, requested at \<^verbatim>\<open>*Node\<close>. The run ends
  without error after three rounds with nothing pending and three functions printed.
  The function of \<^verbatim>\<open>Node\<close> is \<^verbatim>\<open>deriveCompare_Node\<close>; in its body the field \<^verbatim>\<open>Next\<close> is
  compared by \<^verbatim>\<open>this.Next.Compare(that.Next)\<close>, a call of the method \<^verbatim>\<open>Compare\<close> of
  \<^verbatim>\<open>*Node\<close> (lines 304 to 308 of \<^verbatim>\<open>field\<close>), which the generation does not print; no
  generated function calls itself.
\<close>

theorem node_method_counterexample:
  "map_option fst (drive 4 exDecls exNodePlugin) = Some None
   \<and> map_option (ToGenerate \<circ> TypesMap \<circ> snd) (drive 4 exDecls exNodePlugin) = Some []
   \<and> map_option (lines \<circ> printer \<circ> snd) (drive 4 exDecls exNodePlugin)
     = Some [(0, []), (0, ''func deriveCompare(this, that *Node) int {''),
        (1, ''if this == nil {''), (2, ''if that == nil {''),
        (3, ''return 0''), (2, ''}''), (2, ''return -1''), (1, ''}''),
        (1, ''if that == nil {''), (2, ''return 1''), (1, ''}''),
        (1, ''return deriveCompare_Node(*this, *that)''), (0, ''}''),
        (0, []), (0, ''func deriveCompare_Node(this, that Node) int {''),
        (1, ''if c := deriveCompare_int(this.Val, that.Val); c != 0 {''),
        (2, ''return c''), (1, ''}''),
        (1, ''if c := this.Next.Compare(that.Next); c != 0 {''),
        (2, ''return c''), (1, ''}''), (1, ''return 0''), (0, ''}''),
        (0, []), (0, ''func deriveCompare_int(this, that int) int {''),
        (1, ''if this != that {''), (2, ''if this < that {''),
        (3, ''return -1''), (2, ''} else {''), (3, ''return 1''),
        (2, ''}''), (1, ''}''), (1, ''return 0''), (0, ''}'')]"
  by (simp add: ex_node_run exNodeState_def ToGenerate_def exPtrText_def exNodeText_def exIntText_def)

text \<open>
  Claim C2, as amended. Requesting the name of a type again returns the same name and
  leaves the registry as it is, so that nothing becomes pending by it; this holds in
  every later state of the generation. A pending type whose function has been
  generated is pending in no later state. When the types reached from the call sites
  are finitely many (a list closed under the requests of \<^verbatim>\<open>genFuncFor\<close> that holds the
  registered types, each registered once), the driver returns within one round more
  than the list has types, with an error or with nothing pending. A run that ends
  without error from a registry of pending types has printed exactly one function for
  each registered type, in the order of the registry and under the registered name, and
  the registry holds each type once. In the function of a struct, a field that is a
  pointer to a named type (the \<^verbatim>\<open>Next\<close> of a linked list) is compared by a call of its
  \<^verbatim>\<open>Compare\<close> method, not by a call of a generated function.
\<close>

theorem self_reference_terminates:
  "GetFuncName t (snd (GetFuncName t tm)) = (fst (GetFuncName t tm), snd (GetFuncName t tm))
   \<and> (nameOf (entries tm) t = Some name \<longrightarrow> GetFuncName t tm = (name, tm))
   \<and> (later c cLater \<and> nameOf (entries (TypesMap c)) t = Some name \<longrightarrow> getName t cLater = (name, cLater))
   \<and> (distinct (map fst (entries (TypesMap c))) \<and> t \<in> set (ToGenerate (TypesMap c))
        \<and> later (snd (genFuncFor D t c)) cLater \<longrightarrow>
      t \<notin> set (ToGenerate (TypesMap cLater)))
   \<and> (closedUnder D S \<and> registeredIn S c \<and> distinct (map fst (entries (TypesMap c)))
        \<and> length S < n \<longrightarrow>
      (\<exists>e c'. drive n D c = Some (e, c') \<and> (e = None \<longrightarrow> ToGenerate (TypesMap c') = [])))
   \<and> (drive n D c = Some (None, cEnd) \<and> allRequested (entries (TypesMap c))
        \<and> distinct (map fst (entries (TypesMap c))) \<longrightarrow>
      ToGenerate (TypesMap cEnd) = []
      \<and> distinct (map fst (entries (TypesMap cEnd)))
      \<and> (\<exists>bodies. length bodies = length (entries (TypesMap cEnd))
            \<and> lines (printer cEnd) = lines (printer c)
                @ funcTexts (indent (printer c)) (qual c) (entries (TypesMap cEnd)) bodies))
   \<and> (Underlying D ty = Struct flds \<and> (fname, Pointer (Named tname)) \<in> set flds
        \<and> fst (genFuncFor D ty c) = None \<longrightarrow>
      (Suc (indent (printer c)),
         ''if c := this.'' @ fname @ ''.Compare(that.'' @ fname @ ''); c != 0 {'')
        \<in> set (lines (printer (snd (genFuncFor D ty c)))))"
proof (intro conjI impI)
  show "GetFuncName t (snd (GetFuncName t tm)) = (fst (GetFuncName t tm), snd (GetFuncName t tm))"
    by (simp add: GetFuncName_def nameOf_append split: option.splits)
next
  assume "nameOf (entries tm) t = Some name"
  then show "GetFuncName t tm = (name, tm)" by (simp add: GetFuncName_def)
next
  assume "later c cLater \<and> nameOf (entries (TypesMap c)) t = Some name"
  then show "getName t cLater = (name, cLater)" using later_getName_same by blast
next
  assume "distinct (map fst (entries (TypesMap c))) \<and> t \<in> set (ToGenerate (TypesMap c))
        \<and> later (snd (genFuncFor D t c)) cLater"
  then show "t \<notin> set (ToGenerate (TypesMap cLater))"
    using generated_not_pending by blast
next
  assume "closedUnder D S \<and> registeredIn S c \<and> distinct (map fst (entries (TypesMap c)))
        \<and> length S < n"
  then have a: "closedUnder D S" "registeredIn S c" "distinct (map fst (entries (TypesMap c)))"
      "length S < n"
    by simp_all
  from drive_terminates [OF a]
  show "\<exists>e c'. drive n D c = Some (e, c') \<and> (e = None \<longrightarrow> ToGenerate (TypesMap c') = [])"
    by blast
next
  assume h: "drive n D c = Some (None, cEnd) \<and> allRequested (entries (TypesMap c))
        \<and> distinct (map fst (entries (TypesMap c)))"
  from h drive_later [of n D c None cEnd] later_single [of c cEnd]
  show "distinct (map fst (entries (TypesMap cEnd)))" by blast
next
  assume h: "drive n D c = Some (None, cEnd) \<and> allRequested (entries (TypesMap c))
        \<and> distinct (map fst (entries (TypesMap c)))"
  then show "\<exists>bodies. length bodies = length (entries (TypesMap cEnd))
            \<and> lines (printer cEnd) = lines (printer c)
                @ funcTexts (indent (printer c)) (qual c) (entries (TypesMap cEnd)) bodies"
    using drive_one_function_each by blast
next
  assume h: "drive n D c = Some (None, cEnd) \<and> allRequested (entries (TypesMap c))
        \<and> distinct (map fst (entries (TypesMap c)))"
  then show "ToGenerate (TypesMap cEnd) = []"
    using drive_done by blast
next
  assume "Underlying D ty = Struct flds \<and> (fname, Pointer (Named tname)) \<in> set flds
        \<and> fst (genFuncFor D ty c) = None"
  then show "(Suc (indent (printer c)),
         ''if c := this.'' @ fname @ ''.Compare(that.'' @ fname @ ''); c != 0 {'')
        \<in> set (lines (printer (snd (genFuncFor D ty c))))"
    using genFuncFor_method_line by blast
qed

theorem self_reference_terminates_witness:
  "closedUnder exDecls [Pointer (Named ''Node''), Named ''Node'', Basic IntKind]
   \<and> registeredIn [Pointer (Named ''Node''), Named ''Node'', Basic IntKind] exNodePlugin
   \<and> allRequested (entries (TypesMap exNodePlugin))
   \<and> distinct (map fst (entries (TypesMap exNodePlugin)))
   \<and> (\<exists>cEnd. drive 4 exDecls exNodePlugin = Some (None, cEnd)
        \<and> ToGenerate (TypesMap cEnd) = []
        \<and> map fst (entries (TypesMap cEnd)) = [Pointer (Named ''Node''), Named ''Node'', Basic IntKind]
        \<and> distinct (map fst (entries (TypesMap cEnd)))
        \<and> (\<exists>bodies. length bodies = 3
              \<and> lines (printer cEnd) = funcTexts 0 typeString (entries (TypesMap cEnd)) bodies))
   \<and> (1, ''if c := this.Next.Compare(that.Next); c != 0 {'')
        \<in> set (lines (printer (snd (genFuncFor exDecls (Named ''Node'')
              (snd (genFuncFor exDecls (Pointer (Named ''Node'')) exNodePlugin))))))"
proof -
  let ?S = "[Pointer (Named ''Node''), Named ''Node'', Basic IntKind]"
  let ?c1 = "exNodeState [(Pointer (Named ''Node''), ''deriveCompare'', StGenerating),
                          (Named ''Node'', ''deriveCompare_Node'', StRequested)] ([] @ exPtrText)"
  let ?c3 = "exNodeState [(Pointer (Named ''Node''), ''deriveCompare'', StGenerating),
                          (Named ''Node'', ''deriveCompare_Node'', StGenerating),
                          (Basic IntKind, ''deriveCompare_int'', StGenerating)]
               (exPtrText @ exNodeText @ exIntText)"
  note run = self_reference_terminates [where D = exDecls and c = exNodePlugin and S = ?S
      and n = 4 and cEnd = ?c3]
  note node = self_reference_terminates [where D = exDecls and c = ?c1 and ty = "Named ''Node''"
      and flds = "[(''Val'', Basic IntKind), (''Next'', Pointer (Named ''Node''))]"
      and fname = "''Next''" and tname = "''Node''"]
  have a: "closedUnder exDecls ?S"
    by (simp add: closedUnder_def requests_def exDecls_def)
  have b: "registeredIn ?S exNodePlugin"
    by (simp add: registeredIn_def ex_node_start exNodeState_def)
  have d: "allRequested (entries (TypesMap exNodePlugin))"
      "distinct (map fst (entries (TypesMap exNodePlugin)))"
    by (simp_all add: allRequested_def ex_node_start exNodeState_def)
  have r: "drive 4 exDecls exNodePlugin = Some (None, ?c3)"
    by (rule ex_node_run)
  from run a b d r have e: "ToGenerate (TypesMap ?c3) = []"
      "distinct (map fst (entries (TypesMap ?c3)))"
      "\<exists>bodies. length bodies = length (entries (TypesMap ?c3))
          \<and> lines (printer ?c3) = lines (printer exNodePlugin)
              @ funcTexts (indent (printer exNodePlugin)) (qual exNodePlugin) (entries (TypesMap ?c3)) bodies"
    by blast+
  have m: "map fst (entries (TypesMap ?c3)) = ?S" "length (entries (TypesMap ?c3)) = 3"
      "lines (printer exNodePlugin) = []" "indent (printer exNodePlugin) = 0"
      "qual exNodePlugin = typeString"
    by (simp_all add: exNodeState_def ex_node_start)
  from e(3) m have f: "\<exists>bodies. length bodies = 3
      \<and> lines (printer ?c3) = funcTexts 0 typeString (entries (TypesMap ?c3)) bodies"
    by simp
  have g1: "snd (genFuncFor exDecls (Pointer (Named ''Node'')) exNodePlugin) = ?c1"
    by (simp only: ex_node_start ex_node_gen1 snd_conv)
  have "Underlying exDecls (Named ''Node'')
        = Struct [(''Val'', Basic IntKind), (''Next'', Pointer (Named ''Node''))]"
    by (simp add: exDecls_def)
  moreover have "fst (genFuncFor exDecls (Named ''Node'') ?c1) = None"
    by (simp only: ex_node_gen2 fst_conv)
  moreover have "indent (printer ?c1) = 0" by (simp add: exNodeState_def)
  ultimately have h: "(1, ''if c := this.Next.Compare(that.Next); c != 0 {'')
        \<in> set (lines (printer (snd (genFuncFor exDecls (Named ''Node'') ?c1))))"
    using node by simp
  from a b d r e(1,2) m(1) f h g1 show ?thesis by simp
qed

end
